theory Spec2Isabelle
  imports Main "HOL-Library.Multiset" "HOL-Library.Sublist"
    "HOL-Library.Char_ord" "HOL-Library.List_Lexorder"
begin

section \<open>Go values used by the scraper\<close>

text \<open>
  A Go \<^verbatim>\<open>string\<close> is a sequence of bytes, which is what \<^typ>\<open>string\<close> is here.
  A Go \<^verbatim>\<open>map[string]int\<close> is kept as an association list with pairwise distinct keys.
  The position of an entry in the list stands for the position at which a
  \<^verbatim>\<open>for k := range m\<close> loop yields it. Go leaves that order unspecified, so two lists
  with the same entries in a different order are two possible iterations of one and the
  same map contents. Go's \<^verbatim>\<open>int\<close> has 64 bits; the counters below count characters of
  fetched pages and lengths of maps and stay far from that bound, so they are \<^typ>\<open>int\<close>.
\<close>

type_synonym gomap = "(string \<times> int) list"

text \<open>The index expression \<^verbatim>\<open>m[k]\<close>: the stored value, or the zero value of \<^verbatim>\<open>int\<close>.\<close>

definition index :: "gomap \<Rightarrow> string \<Rightarrow> int" where
  "index m k = (case map_of m k of None \<Rightarrow> 0 | Some v \<Rightarrow> v)"

text \<open>The assignment \<^verbatim>\<open>m[k] = v\<close>: overwrite the entry of \<open>k\<close>, or add one.\<close>

primrec assign :: "string \<Rightarrow> int \<Rightarrow> gomap \<Rightarrow> gomap" where
  "assign k v [] = [(k, v)]"
| "assign k v (e # m) = (if fst e = k then (k, v) # m else e # assign k v m)"

text \<open>\<^verbatim>\<open>m[k] += 1\<close>\<close>

definition increment :: "gomap \<Rightarrow> string \<Rightarrow> gomap" where
  "increment m k = assign k (index m k + 1) m"

text \<open>\<^verbatim>\<open>len(m)\<close>\<close>

definition len :: "gomap \<Rightarrow> int" where
  "len m = int (length m)"

text \<open>
  A Go \<^verbatim>\<open>map[string]struct{}\<close> (a set of strings) is the list of its keys;
  \<^verbatim>\<open>s[k] = struct{}{}\<close> adds \<open>k\<close> unless it is there.
\<close>

definition setAdd :: "string list \<Rightarrow> string \<Rightarrow> string list" where
  "setAdd s k = (if k \<in> set s then s else s @ [k])"

text \<open>
  \<^verbatim>\<open>strings.HasPrefix\<close>, \<^verbatim>\<open>strings.HasSuffix\<close> and \<^verbatim>\<open>strings.Count\<close> of Go's standard
  library, as the library defines them. \<^verbatim>\<open>Count\<close> counts non-overlapping occurrences from the
  left; for an empty \<open>substr\<close> it returns one more than the number of code points, taken
  here as the number of bytes that are not UTF-8 continuation bytes (the scraper only ever
  passes a non-empty constant).
\<close>

definition HasPrefix :: "string \<Rightarrow> string \<Rightarrow> bool" where
  "HasPrefix s pre = (length pre \<le> length s \<and> take (length pre) s = pre)"

definition HasSuffix :: "string \<Rightarrow> string \<Rightarrow> bool" where
  "HasSuffix s suf = (length suf \<le> length s \<and> drop (length s - length suf) s = suf)"

function countFrom :: "string \<Rightarrow> string \<Rightarrow> nat" where
  "countFrom s substr =
     (if substr = [] \<or> length s < length substr then 0
      else if take (length substr) s = substr
           then Suc (countFrom (drop (length substr) s) substr)
           else countFrom (tl s) substr)"
  by pat_completeness auto
termination
  by (relation "measure (\<lambda>(s, substr). length s)")
     (auto simp flip: length_greater_0_conv)

declare countFrom.simps [simp del]

definition Count :: "string \<Rightarrow> string \<Rightarrow> nat" where
  "Count s substr =
     (if substr = []
      then Suc (length (filter (\<lambda>c. \<not> (128 \<le> (of_char c :: nat) \<and> (of_char c :: nat) < 192)) s))
      else countFrom s substr)"

section \<open>The ranking: \<^verbatim>\<open>getMostCommonCharactersList\<close>\<close>

text \<open>
  \<^verbatim>\<open>sort.SliceStable(x, less)\<close> of Go's standard library sorts \<open>x\<close> by \<open>less\<close> and keeps
  elements that \<open>less\<close> does not order in their original order. For a \<open>less\<close> that compares
  keys, as the one below, that result is the one of a stable insertion sort: an element is
  moved to the right past exactly the elements that are strictly \<open>less\<close> than it.
\<close>

fun insertStable :: "('a \<Rightarrow> 'a \<Rightarrow> bool) \<Rightarrow> 'a \<Rightarrow> 'a list \<Rightarrow> 'a list" where
  "insertStable lessFn x [] = [x]"
| "insertStable lessFn x (y # ys) =
     (if lessFn y x then y # insertStable lessFn x ys else x # y # ys)"

definition SliceStable :: "('a \<Rightarrow> 'a \<Rightarrow> bool) \<Rightarrow> 'a list \<Rightarrow> 'a list" where
  "SliceStable lessFn xs = foldr (insertStable lessFn) xs []"

text \<open>
  The loop \<^verbatim>\<open>for k := range m { charactersList[i] = k; i += 1 }\<close>. Writing a slice outside
  its bounds is a run-time panic in Go, which is \<open>None\<close> here.
\<close>

fun fillKeys :: "string list \<Rightarrow> nat \<Rightarrow> string list \<Rightarrow> string list option" where
  "fillKeys [] i charactersList = Some charactersList"
| "fillKeys (k # ks) i charactersList =
     (if i < length charactersList
      then fillKeys ks (i + 1) (charactersList[i := k])
      else None)"

text \<open>
  The map is passed by reference in Go; the function returns the map as the call leaves it
  together with the sorted slice. \<^verbatim>\<open>make([]string, len(m))\<close> is a slice of \<open>len(m)\<close> empty
  strings.
\<close>

definition getMostCommonCharactersList :: "gomap \<Rightarrow> (gomap \<times> string list) option" where
  "getMostCommonCharactersList m =
     (case fillKeys (map fst m) 0 (replicate (length m) []) of
        None \<Rightarrow> None
      | Some charactersList \<Rightarrow>
          Some (m, SliceStable (\<lambda>a b. index m a > index m b) charactersList))"

section \<open>The scraper\<close>

text \<open>
  The model follows \<^verbatim>\<open>main.go\<close>. The repository holds near-duplicate variants of the
  program, which have the same \<^verbatim>\<open>routine\<close>, constructor and options and differ in messages,
  in the constants (an older one has \<^verbatim>\<open>maxSearchDepth = 3\<close>) and in the URL check (the older
  one accepts every URL).
\<close>

definition defaultURL :: string where
  "defaultURL = ''https://www.yomiuri.co.jp''"

definition defaultSearchDepth :: int where
  "defaultSearchDepth = 1"

definition maxSearchDepth :: int where
  "maxSearchDepth = 10"

text \<open>\<^verbatim>\<open>searchDepth *int\<close> is a pointer: \<open>None\<close> is \<^verbatim>\<open>nil\<close>.\<close>

record scraperOptions =
  searchDepth :: "int option"
  loggingMode :: bool

record kanjiKanaFrequencyCounter =
  allCharacteresCount :: int
  uniqueCount :: int
  kanjiUniqueCount :: int
  kanaUniqueCount :: int
  hiraganaUniqueCount :: int
  katakanaUniqueCount :: int
  kanjis :: gomap
  hiraganas :: gomap
  katakanas :: gomap

text \<open>An \<^verbatim>\<open>error\<close> value, made by \<^verbatim>\<open>errors.New\<close> or returned by the network library.\<close>

datatype error = New string

text \<open>
  What the program does to the outside: the URLs passed to \<^verbatim>\<open>http.Get\<close>, the lines written
  by \<^verbatim>\<open>fmt.Println\<close> and the lines written by \<^verbatim>\<open>log.Println\<close>, each in the order of the
  calls. A line is the list of the operands of the call.
\<close>

datatype operand = Text string | Number int | ErrorValue error

record world =
  requests :: "string list"
  printed :: "operand list list"
  logged :: "operand list list"

text \<open>
  \<^verbatim>\<open>type Option func(*scraperOptions) error\<close>: an option changes the options it is given
  through the pointer, may write to the log, and returns \<^verbatim>\<open>nil\<close> (\<open>None\<close>) or an error.
\<close>

type_synonym Option = "scraperOptions \<Rightarrow> world \<Rightarrow> error option \<times> scraperOptions \<times> world"

definition WithSearchDepth :: "int \<Rightarrow> Option" where
  "WithSearchDepth depth = (\<lambda>opts w.
     if depth < 0 then (Some (New ''search depth should be positive''), opts, w)
     else if depth \<ge> maxSearchDepth
       then (Some (New ''search depth exceeds default maximum depth''), opts, w)
     else (None, opts\<lparr>searchDepth := Some depth\<rparr>, w))"

definition WithLogging :: Option where
  "WithLogging = (\<lambda>opts w.
     (None, opts\<lparr>loggingMode := True\<rparr>,
      w\<lparr>logged := logged w @ [[Text ''logging mode is set'']]\<rparr>))"

definition validURL :: "string \<Rightarrow> bool" where
  "validURL url = (HasPrefix url ''http'' \<and> Count url ''://www.'' = 1)"

subsection \<open>What the scraper calls and does not define\<close>

text \<open>
  The tokens of \<^verbatim>\<open>golang.org/x/net/html\<close>, with the fields the scraper reads.
\<close>

datatype TokenType =
  ErrorToken | TextToken | StartTagToken | EndTagToken | SelfClosingTagToken
  | CommentToken | DoctypeToken

record Attribute =
  Key :: string
  Val :: string

record Token =
  Type :: TokenType
  Data :: string
  Attr :: "Attribute list"

text \<open>
  The answer to one \<^verbatim>\<open>http.Get(url)\<close> followed by \<^verbatim>\<open>io.ReadAll(resp.Body)\<close>: the first
  fails, or the second fails, or the body is read.
\<close>

datatype response = GetFailed error | ReadFailed error | Body string

text \<open>
  The collaborators are parameters of the model:
  \<^item> \<open>IsKanji\<close>, \<open>IsKatakana\<close>, \<open>IsHiragana\<close>: the predicates of \<^verbatim>\<open>github.com/gojp/kana\<close>;
  \<^item> \<open>Get\<close>: the network, which answers a URL given the URLs requested before it;
  \<^item> \<open>runes\<close>: the strings \<^verbatim>\<open>string(r)\<close> for the runes \<open>r\<close> that \<^verbatim>\<open>range text\<close> yields, in order;
  \<^item> \<open>Tokenizer\<close>: the tokens that successive \<^verbatim>\<open>Next\<close>/\<^verbatim>\<open>Token\<close> calls return for a text; after
    the last one \<^verbatim>\<open>Next\<close> returns \<^verbatim>\<open>ErrorToken\<close>;
  \<^item> \<open>rangeLinks\<close>: the order in which \<^verbatim>\<open>for nextURL := range links\<close> yields the keys of the
    set of links, given the keys in the order they were added.
\<close>

record env =
  IsKanji :: "string \<Rightarrow> bool"
  IsKatakana :: "string \<Rightarrow> bool"
  IsHiragana :: "string \<Rightarrow> bool"
  Get :: "string list \<Rightarrow> string \<Rightarrow> response"
  runes :: "string \<Rightarrow> string list"
  Tokenizer :: "string \<Rightarrow> Token list"
  rangeLinks :: "string list \<Rightarrow> string list"

subsection \<open>\<^verbatim>\<open>routine\<close>\<close>

text \<open>The body of the loop over the runes of a page (the counting of one character).\<close>

definition countRune :: "env \<Rightarrow> kanjiKanaFrequencyCounter \<Rightarrow> string \<Rightarrow> kanjiKanaFrequencyCounter" where
  "countRune env fc c =
     (if IsKanji env c \<or> IsKatakana env c \<or> IsHiragana env c then
        let fc1 = fc\<lparr>allCharacteresCount := allCharacteresCount fc + 1\<rparr>;
            fc2 = (if IsKanji env c then fc1\<lparr>kanjis := increment (kanjis fc1) c\<rparr> else fc1);
            fc3 = (if IsKatakana env c then fc2\<lparr>katakanas := increment (katakanas fc2) c\<rparr> else fc2)
        in (if IsHiragana env c then fc3\<lparr>hiraganas := increment (hiraganas fc3) c\<rparr> else fc3)
      else fc)"

text \<open>The value of the variable \<^verbatim>\<open>check\<close> for an attribute value.\<close>

definition check :: "string \<Rightarrow> bool" where
  "check val =
     (length val > 0 \<and> \<not> HasPrefix val ''http'' \<and> \<not> HasPrefix val ''#''
      \<and> \<not> HasPrefix val ''..'' \<and> HasSuffix val ''.html'')"

text \<open>The body of the loop over the attributes of an \<^verbatim>\<open>a\<close> start tag.\<close>

definition addAttr :: "string \<Rightarrow> string list \<Rightarrow> Attribute \<Rightarrow> string list" where
  "addAttr url links attr =
     (if Key attr = ''href''
      then (if check (Val attr) then setAdd links (url @ ''/'' @ Val attr) else links)
      else links)"

text \<open>The loop over the tokens, which stops at the first \<^verbatim>\<open>ErrorToken\<close>.\<close>

fun collectLinks :: "string \<Rightarrow> Token list \<Rightarrow> string list \<Rightarrow> string list" where
  "collectLinks url [] links = links"
| "collectLinks url (token # rest) links =
     (if Type token = ErrorToken then links
      else collectLinks url rest
             (if Type token = StartTagToken \<and> Data token = ''a''
              then foldl (addAttr url) links (Attr token)
              else links))"

text \<open>
  \<^verbatim>\<open>routine\<close> works on the counter it is called on and on the outside world, and returns
  both as it leaves them.
\<close>

function routine ::
  "env \<Rightarrow> kanjiKanaFrequencyCounter \<times> world \<Rightarrow> string \<Rightarrow> int
     \<Rightarrow> kanjiKanaFrequencyCounter \<times> world" where
  "routine env s url layer =
     (if layer < 0 then s
      else
        let w = (snd s)\<lparr>requests := requests (snd s) @ [url]\<rparr> in
        case Get env (requests (snd s)) url of
          GetFailed err \<Rightarrow>
            (fst s, w\<lparr>printed := printed w @ [[Text ''unable to fetching url.'', ErrorValue err]]\<rparr>)
        | ReadFailed err \<Rightarrow>
            (fst s, w\<lparr>printed := printed w @ [[Text ''unable to read body.'', ErrorValue err]]\<rparr>)
        | Body text \<Rightarrow>
            let fc = foldl (countRune env) (fst s) (runes env text);
                links = collectLinks url (Tokenizer env text) []
            in foldl (\<lambda>s' nextURL. routine env s' nextURL (layer - 1)) (fc, w)
                 (rangeLinks env links))"
  by pat_completeness auto
termination
  by (relation "measure (\<lambda>(env, s, url, layer). nat (layer + 1))") auto

declare routine.simps [simp del]

subsection \<open>\<^verbatim>\<open>newKanjiKanaScraper\<close>\<close>

text \<open>The loop over the options, which returns at the first error.\<close>

fun applyOptions ::
  "Option list \<Rightarrow> scraperOptions \<Rightarrow> world \<Rightarrow> error option \<times> scraperOptions \<times> world" where
  "applyOptions [] opts w = (None, opts, w)"
| "applyOptions (opt # rest) opts w =
     (case opt opts w of
        (Some err, opts', w') \<Rightarrow> (Some err, opts', w')
      | (None, opts', w') \<Rightarrow> applyOptions rest opts' w')"

text \<open>
  The statements after the traversal, which compute the derived counts: the spec's
  \<open>finalize\<close>.
\<close>

definition finalize :: "kanjiKanaFrequencyCounter \<Rightarrow> kanjiKanaFrequencyCounter" where
  "finalize fc =
     (let fc1 = fc\<lparr>uniqueCount := uniqueCount fc + len (kanjis fc)\<rparr>;
          fc2 = fc1\<lparr>uniqueCount := uniqueCount fc1 + len (katakanas fc1)\<rparr>;
          fc3 = fc2\<lparr>uniqueCount := uniqueCount fc2 + len (hiraganas fc2)\<rparr>;
          fc4 = fc3\<lparr>kanjiUniqueCount := len (kanjis fc3)\<rparr>;
          fc5 = fc4\<lparr>katakanaUniqueCount := len (katakanas fc4)\<rparr>;
          fc6 = fc5\<lparr>hiraganaUniqueCount := len (hiraganas fc5)\<rparr>;
          kanas = foldl setAdd [] (map fst (katakanas fc6));
          kanas' = foldl setAdd kanas (map fst (hiraganas fc6))
      in fc6\<lparr>kanaUniqueCount := int (length kanas')\<rparr>)"

text \<open>
  The constructor returns \<^verbatim>\<open>(nil, err)\<close> or \<^verbatim>\<open>(frequencyCounter, nil)\<close>, or it panics: reading
  through a \<^verbatim>\<open>nil\<close> pointer is a run-time panic in Go. The wait \<^verbatim>\<open><-ctx.Done()\<close> after the
  traversal changes nothing but the time of the return.
\<close>

datatype outcome =
  Panic world
  | Return "error + kanjiKanaFrequencyCounter" world

definition newCounter :: kanjiKanaFrequencyCounter where
  "newCounter = \<lparr>allCharacteresCount = 0, uniqueCount = 0, kanjiUniqueCount = 0,
     kanaUniqueCount = 0, hiraganaUniqueCount = 0, katakanaUniqueCount = 0,
     kanjis = [], hiraganas = [], katakanas = []\<rparr>"

definition newKanjiKanaScraper :: "env \<Rightarrow> string \<Rightarrow> Option list \<Rightarrow> world \<Rightarrow> outcome" where
  "newKanjiKanaScraper env rootURL options w =
     (case applyOptions options \<lparr>searchDepth = None, loggingMode = False\<rparr> w of
        (Some err, opts, w1) \<Rightarrow> Return (Inl err) w1
      | (None, opts, w1) \<Rightarrow>
         (let rootURL' = (if \<not> validURL rootURL then defaultURL else rootURL);
              w2 = (if \<not> validURL rootURL \<and> loggingMode opts
                    then w1\<lparr>logged := logged w1 @
                           [[Text ''invalid URL, setting to default URL='', Text rootURL']]\<rparr>
                    else w1);
              searchDepth' = (case searchDepth opts of
                                None \<Rightarrow> defaultSearchDepth | Some d \<Rightarrow> d);
              w3 = (if loggingMode opts
                    then w2\<lparr>logged := logged w2 @
                           [[Text ''search depth set to'', Number searchDepth']]\<rparr>
                    else w2);
              frequencyCounter = newCounter
          in (case searchDepth opts of
                None \<Rightarrow> Panic w3
              | Some d \<Rightarrow>
                  (case routine env (frequencyCounter, w3) rootURL' d of
                     (fc, w4) \<Rightarrow> Return (Inr (finalize fc)) w4))))"

section \<open>Fixtures\<close>

text \<open>
  Characters as the UTF-8 bytes of their code points: two kanji (U+65E5, U+672C), two
  hiragana (U+3042, U+3044) and one katakana (U+30AB).
\<close>

definition kanjiNichi :: string where
  "kanjiNichi = [CHR 0xE6, CHR 0x97, CHR 0xA5]"

definition kanjiHon :: string where
  "kanjiHon = [CHR 0xE6, CHR 0x9C, CHR 0xAC]"

definition hiraganaA :: string where
  "hiraganaA = [CHR 0xE3, CHR 0x81, CHR 0x82]"

definition hiraganaI :: string where
  "hiraganaI = [CHR 0xE3, CHR 0x81, CHR 0x84]"

definition katakanaKa :: string where
  "katakanaKa = [CHR 0xE3, CHR 0x82, CHR 0xAB]"

definition emptyWorld :: world where
  "emptyWorld = \<lparr>requests = [], printed = [], logged = []\<rparr>"

definition anchor :: "string \<Rightarrow> Token" where
  "anchor href = \<lparr>Type = StartTagToken, Data = ''a'', Attr = [\<lparr>Key = ''href'', Val = href\<rparr>]\<rparr>"

text \<open>
  A site of three pages. The root page holds three kanji occurrences and one Latin letter,
  and links (among others that the filter rejects) twice to \<open>a.html\<close>, to \<open>a.html/b.html\<close>
  and to \<open>gone.html\<close>, whose fetch fails. Page \<open>a.html\<close> holds hiragana and links to
  \<open>b.html\<close>; page \<open>a.html/b.html\<close> holds one katakana and no link.
\<close>

definition siteRoot :: string where
  "siteRoot = ''https://www.example.jp''"

definition siteGet :: "string \<Rightarrow> response" where
  "siteGet url =
     (if url = siteRoot then Body ''root''
      else if url = siteRoot @ ''/a.html'' then Body ''A''
      else if url = siteRoot @ ''/a.html/b.html'' then Body ''B''
      else if url = defaultURL then Body ''D''
      else GetFailed (New ''connection refused''))"

definition siteRunes :: "string \<Rightarrow> string list" where
  "siteRunes text =
     (if text = ''root'' then [kanjiNichi, kanjiHon, kanjiNichi, ''x'']
      else if text = ''A'' then [hiraganaA, hiraganaI, hiraganaA]
      else if text = ''B'' then [katakanaKa]
      else if text = ''D'' then [kanjiHon]
      else [])"

definition siteTokens :: "string \<Rightarrow> Token list" where
  "siteTokens text =
     (if text = ''root'' then
        [anchor ''a.html'',
         \<lparr>Type = TextToken, Data = ''x'', Attr = []\<rparr>,
         anchor ''http://other.site/page.html'',
         anchor ''#section'',
         anchor ''a.html'',
         anchor ''../parent.html'',
         anchor ''page.htm'',
         anchor [],
         \<lparr>Type = StartTagToken, Data = ''img'', Attr = [\<lparr>Key = ''href'', Val = ''i.html''\<rparr>]\<rparr>,
         \<lparr>Type = EndTagToken, Data = ''a'', Attr = []\<rparr>,
         anchor ''a.html/b.html'',
         anchor ''gone.html'']
      else if text = ''A'' then [anchor ''b.html'']
      else [])"

definition site :: env where
  "site = \<lparr>IsKanji = (\<lambda>c. c \<in> set [kanjiNichi, kanjiHon]),
           IsKatakana = (\<lambda>c. c = katakanaKa),
           IsHiragana = (\<lambda>c. c \<in> set [hiraganaA, hiraganaI]),
           Get = (\<lambda>history url. siteGet url),
           runes = siteRunes,
           Tokenizer = siteTokens,
           rangeLinks = (\<lambda>links. links)\<rparr>"

text \<open>The same site with a classifier whose kanji and katakana predicates overlap.\<close>

definition overlapping :: env where
  "overlapping = site\<lparr>IsKanji := (\<lambda>c. c = kanjiNichi), IsKatakana := (\<lambda>c. c = kanjiNichi)\<rparr>"


text \<open>The fixture site, with the links of a page iterated in the reverse order.\<close>

definition siteReversed :: env where
  "siteReversed = site\<lparr>rangeLinks := rev\<rparr>"

text \<open>An outcome without what was written to the log.\<close>

fun unlogged :: "outcome \<Rightarrow> outcome" where
  "unlogged (Panic w) = Panic (w\<lparr>logged := []\<rparr>)"
| "unlogged (Return r w) = Return r (w\<lparr>logged := []\<rparr>)"

fun finalWorld :: "outcome \<Rightarrow> world" where
  "finalWorld (Panic w) = w"
| "finalWorld (Return r w) = w"

section \<open>Notions of the specification\<close>

text \<open>
  Two notions in which the specification (section 4.3) states the link filter, written down
  without reference to the loops of \<^verbatim>\<open>routine\<close>: the \<open>href\<close> attribute values of the anchors of a
  page (the \<^verbatim>\<open>a\<close> start tags of its token stream), in document order, and the condition that
  makes one of them a followable child link. The code is compared with them below.
\<close>

definition anchorHrefs :: "Token list \<Rightarrow> string list" where
  "anchorHrefs tokens =
     concat (map (\<lambda>t. map Val (filter (\<lambda>a. Key a = ''href'') (Attr t)))
       (filter (\<lambda>t. Type t = StartTagToken \<and> Data t = ''a'')
          (takeWhile (\<lambda>t. Type t \<noteq> ErrorToken) tokens)))"

definition followable :: "string \<Rightarrow> bool" where
  "followable href =
     (href \<noteq> [] \<and> \<not> prefix ''http'' href \<and> \<not> prefix ''#'' href
      \<and> \<not> prefix ''..'' href \<and> suffix ''.html'' href)"

section \<open>Lemmas\<close>

subsection \<open>The ranking\<close>

lemma fillKeys_segment:
  "i + length ks \<le> length cl \<Longrightarrow>
   fillKeys ks i cl = Some (take i cl @ ks @ drop (i + length ks) cl)"
proof (induction ks arbitrary: i cl)
  case Nil
  then show ?case by simp
next
  case (Cons k ks)
  then have i: "i < length cl" by simp
  have "fillKeys (k # ks) i cl = fillKeys ks (Suc i) (cl[i := k])"
    using i by simp
  also have "\<dots> = Some (take (Suc i) (cl[i := k]) @ ks @ drop (Suc i + length ks) (cl[i := k]))"
    using Cons.prems by (intro Cons.IH) simp
  also have "take (Suc i) (cl[i := k]) = take i cl @ [k]"
    using i by (simp add: take_Suc_conv_app_nth)
  also have "drop (Suc i + length ks) (cl[i := k]) = drop (i + length (k # ks)) cl"
    by simp
  finally show ?case by simp
qed

lemma fillKeys_all: "fillKeys ks 0 (replicate (length ks) []) = Some ks"
  using fillKeys_segment [of 0 ks "replicate (length ks) []"] by simp

lemma insertStable_insort_key:
  fixes f :: "'a \<Rightarrow> int"
  shows "insertStable (\<lambda>a b. f a > f b) x ys = insort_key (\<lambda>k. - f k) x ys"
  by (induction ys) auto

lemma SliceStable_sort_key:
  fixes f :: "'a \<Rightarrow> int"
  shows "SliceStable (\<lambda>a b. f a > f b) xs = sort_key (\<lambda>k. - f k) xs"
  by (induction xs) (simp_all add: SliceStable_def sort_key_def insertStable_insort_key)

lemma getMost_sort_key:
  "getMostCommonCharactersList m = Some (m, sort_key (\<lambda>k. - index m k) (map fst m))"
  using fillKeys_all [of "map fst m"]
  by (simp add: getMostCommonCharactersList_def SliceStable_sort_key)

lemma sort_key_descending:
  fixes f :: "'a \<Rightarrow> int"
  shows "sorted_wrt (\<lambda>a b. f a \<ge> f b) (sort_key (\<lambda>k. - f k) xs)"
proof -
  have "sorted (map (\<lambda>k. - f k) (sort_key (\<lambda>k. - f k) xs))"
    by (rule sorted_sort_key)
  then show ?thesis
    by (simp add: sorted_map)
qed

lemma sort_key_counts:
  fixes f :: "'a \<Rightarrow> int"
  assumes "mset xs = mset ys"
  shows "map f (sort_key (\<lambda>k. - f k) xs) = map f (sort_key (\<lambda>k. - f k) ys)"
proof -
  let ?g = "\<lambda>k. - f k"
  have "mset (map ?g (sort_key ?g ys)) = mset (map ?g xs)"
    using assms by simp
  moreover have "sorted (map ?g (sort_key ?g ys))"
    by (rule sorted_sort_key)
  ultimately have ys: "sort (map ?g xs) = map ?g (sort_key ?g ys)"
    by (rule properties_for_sort)
  have "mset (map ?g (sort_key ?g xs)) = mset (map ?g xs)"
    by simp
  moreover have "sorted (map ?g (sort_key ?g xs))"
    by (rule sorted_sort_key)
  ultimately have "sort (map ?g xs) = map ?g (sort_key ?g xs)"
    by (rule properties_for_sort)
  with ys have "map ?g (sort_key ?g xs) = map ?g (sort_key ?g ys)"
    by simp
  then have "map uminus (map ?g (sort_key ?g xs)) = map uminus (map ?g (sort_key ?g ys))"
    by simp
  then show ?thesis
    by (simp add: comp_def)
qed

lemma index_cong: "map_of m = map_of m' \<Longrightarrow> index m = index m'"
  by (rule ext) (simp add: index_def)

lemma same_contents_same_keys:
  assumes "distinct (map fst m)" and "distinct (map fst m')" and "map_of m = map_of m'"
  shows "mset (map fst m) = mset (map fst m')"
proof -
  have "set m = set m'"
    using assms by (simp add: map_of_inject_set)
  then have "set (map fst m) = set (map fst m')"
    by simp
  with assms(1,2) show ?thesis
    using set_eq_iff_mset_eq_distinct [of "map fst m" "map fst m'"] by blast
qed

subsection \<open>Maps\<close>

lemma map_of_assign: "map_of (assign k v m) = (map_of m)(k \<mapsto> v)"
  by (induction m) auto

lemma index_assign: "index (assign k v m) k' = (if k' = k then v else index m k')"
  by (simp add: index_def map_of_assign)

lemma keys_assign: "fst ` set (assign k v m) = insert k (fst ` set m)"
  by (induction m) auto

lemma index_increment: "index (increment m c) k = index m k + (if k = c then 1 else 0)"
  by (simp add: increment_def index_assign)

lemma keys_increment: "fst ` set (increment m c) = insert c (fst ` set m)"
  by (simp add: increment_def keys_assign)

lemma index_absent: "k \<notin> fst ` set m \<Longrightarrow> index m k = 0"
  using map_of_eq_None_iff [of m k] by (simp add: index_def)

lemma set_foldl_setAdd: "set (foldl setAdd acc ks) = set acc \<union> set ks"
  by (induction ks arbitrary: acc) (auto simp: setAdd_def)

lemma distinct_foldl_setAdd: "distinct acc \<Longrightarrow> distinct (foldl setAdd acc ks)"
  by (induction ks arbitrary: acc) (auto simp: setAdd_def)

lemma length_foldl_setAdd:
  "distinct acc \<Longrightarrow> length (foldl setAdd acc ks) = card (set acc \<union> set ks)"
  using distinct_card [OF distinct_foldl_setAdd, of acc ks]
  by (simp add: set_foldl_setAdd)

subsection \<open>Counting the characters of a page\<close>

lemma countRune_total:
  "allCharacteresCount (countRune env fc c) =
     allCharacteresCount fc
       + (if IsKanji env c \<or> IsKatakana env c \<or> IsHiragana env c then 1 else 0)"
  by (simp add: countRune_def Let_def)

lemma countRune_kanjis:
  "kanjis (countRune env fc c) = (if IsKanji env c then increment (kanjis fc) c else kanjis fc)"
  by (simp add: countRune_def Let_def)

lemma countRune_katakanas:
  "katakanas (countRune env fc c) =
     (if IsKatakana env c then increment (katakanas fc) c else katakanas fc)"
  by (simp add: countRune_def Let_def)

lemma countRune_hiraganas:
  "hiraganas (countRune env fc c) =
     (if IsHiragana env c then increment (hiraganas fc) c else hiraganas fc)"
  by (simp add: countRune_def Let_def)

lemma page_total:
  "allCharacteresCount (foldl (countRune env) fc cs) =
     allCharacteresCount fc
       + int (length (filter (\<lambda>c. IsKanji env c \<or> IsKatakana env c \<or> IsHiragana env c) cs))"
  by (induction cs arbitrary: fc) (simp_all add: countRune_total)

lemma page_kanjis:
  "index (kanjis (foldl (countRune env) fc cs)) k =
     index (kanjis fc) k + (if IsKanji env k then int (count_list cs k) else 0)"
  by (induction cs arbitrary: fc) (simp_all add: countRune_kanjis index_increment)

lemma page_katakanas:
  "index (katakanas (foldl (countRune env) fc cs)) k =
     index (katakanas fc) k + (if IsKatakana env k then int (count_list cs k) else 0)"
  by (induction cs arbitrary: fc) (simp_all add: countRune_katakanas index_increment)

lemma page_hiraganas:
  "index (hiraganas (foldl (countRune env) fc cs)) k =
     index (hiraganas fc) k + (if IsHiragana env k then int (count_list cs k) else 0)"
  by (induction cs arbitrary: fc) (simp_all add: countRune_hiraganas index_increment)

section \<open>Claims about the counter\<close>

text \<open>
  C1 (as amended). For every character \<open>c\<close> of a fetched page, the counting step adds one to
  the entry of \<open>c\<close> in the mapping of each class whose predicate holds for \<open>c\<close> (which creates
  the entry at 1 when it is absent) and leaves every other entry as it is. It adds one to
  \<open>allCharacteresCount\<close> when at least one predicate holds, whatever the number of classes that
  match, and nothing otherwise. Over the characters \<open>cs\<close> of a whole page the entry of a
  character of a class grows by its number of occurrences and the total by the number of
  characters that some class matches.
\<close>

theorem countRune_one_per_character:
  "index (kanjis (countRune env fc c)) k
     = index (kanjis fc) k + (if IsKanji env c \<and> k = c then 1 else 0)
   \<and> index (katakanas (countRune env fc c)) k
     = index (katakanas fc) k + (if IsKatakana env c \<and> k = c then 1 else 0)
   \<and> index (hiraganas (countRune env fc c)) k
     = index (hiraganas fc) k + (if IsHiragana env c \<and> k = c then 1 else 0)
   \<and> (IsKanji env c \<and> c \<notin> fst ` set (kanjis fc)
        \<longrightarrow> index (kanjis (countRune env fc c)) c = 1
            \<and> fst ` set (kanjis (countRune env fc c)) = insert c (fst ` set (kanjis fc)))
   \<and> (IsKatakana env c \<and> c \<notin> fst ` set (katakanas fc)
        \<longrightarrow> index (katakanas (countRune env fc c)) c = 1
            \<and> fst ` set (katakanas (countRune env fc c))
                = insert c (fst ` set (katakanas fc)))
   \<and> (IsHiragana env c \<and> c \<notin> fst ` set (hiraganas fc)
        \<longrightarrow> index (hiraganas (countRune env fc c)) c = 1
            \<and> fst ` set (hiraganas (countRune env fc c))
                = insert c (fst ` set (hiraganas fc)))
   \<and> allCharacteresCount (countRune env fc c)
     = allCharacteresCount fc
         + (if IsKanji env c \<or> IsKatakana env c \<or> IsHiragana env c then 1 else 0)
   \<and> index (kanjis (foldl (countRune env) fc cs)) k
     = index (kanjis fc) k + (if IsKanji env k then int (count_list cs k) else 0)
   \<and> index (katakanas (foldl (countRune env) fc cs)) k
     = index (katakanas fc) k + (if IsKatakana env k then int (count_list cs k) else 0)
   \<and> index (hiraganas (foldl (countRune env) fc cs)) k
     = index (hiraganas fc) k + (if IsHiragana env k then int (count_list cs k) else 0)
   \<and> allCharacteresCount (foldl (countRune env) fc cs)
     = allCharacteresCount fc
         + int (length (filter (\<lambda>c. IsKanji env c \<or> IsKatakana env c \<or> IsHiragana env c) cs))"
proof -
  have k: "index (kanjis (countRune env fc c)) k
             = index (kanjis fc) k + (if IsKanji env c \<and> k = c then 1 else 0)"
    by (simp add: countRune_kanjis index_increment)
  have t: "index (katakanas (countRune env fc c)) k
             = index (katakanas fc) k + (if IsKatakana env c \<and> k = c then 1 else 0)"
    by (simp add: countRune_katakanas index_increment)
  have h: "index (hiraganas (countRune env fc c)) k
             = index (hiraganas fc) k + (if IsHiragana env c \<and> k = c then 1 else 0)"
    by (simp add: countRune_hiraganas index_increment)
  have k1: "IsKanji env c \<and> c \<notin> fst ` set (kanjis fc)
        \<longrightarrow> index (kanjis (countRune env fc c)) c = 1
            \<and> fst ` set (kanjis (countRune env fc c)) = insert c (fst ` set (kanjis fc))"
    using index_absent [of c "kanjis fc"]
    by (auto simp: countRune_kanjis index_increment keys_increment)
  have t1: "IsKatakana env c \<and> c \<notin> fst ` set (katakanas fc)
        \<longrightarrow> index (katakanas (countRune env fc c)) c = 1
            \<and> fst ` set (katakanas (countRune env fc c))
                = insert c (fst ` set (katakanas fc))"
    using index_absent [of c "katakanas fc"]
    by (auto simp: countRune_katakanas index_increment keys_increment)
  have h1: "IsHiragana env c \<and> c \<notin> fst ` set (hiraganas fc)
        \<longrightarrow> index (hiraganas (countRune env fc c)) c = 1
            \<and> fst ` set (hiraganas (countRune env fc c))
                = insert c (fst ` set (hiraganas fc))"
    using index_absent [of c "hiraganas fc"]
    by (auto simp: countRune_hiraganas index_increment keys_increment)
  note a = countRune_total [of env fc c]
  note pk = page_kanjis [of env fc cs k]
  note pt = page_katakanas [of env fc cs k]
  note ph = page_hiraganas [of env fc cs k]
  note pa = page_total [of env fc cs]
  from k t h k1 t1 h1 a pk pt ph pa show ?thesis by blast
qed

theorem countRune_one_per_character_witness:
  "IsKanji site kanjiNichi \<and> kanjiNichi \<notin> fst ` set (kanjis newCounter)
   \<and> index (kanjis (countRune site newCounter kanjiNichi)) kanjiNichi = 1
   \<and> allCharacteresCount (countRune site newCounter kanjiNichi) = 1
   \<and> index (kanjis (foldl (countRune site) newCounter (runes site ''root''))) kanjiNichi = 2
   \<and> allCharacteresCount (foldl (countRune site) newCounter (runes site ''root'')) = 3"
  using countRune_one_per_character [of site newCounter kanjiNichi kanjiNichi "runes site ''root''"]
  by (simp add: site_def siteRunes_def newCounter_def index_def
        kanjiNichi_def kanjiHon_def hiraganaA_def hiraganaI_def katakanaKa_def)

theorem countRune_one_per_class_counterexample:
  "IsKanji overlapping kanjiNichi \<and> IsKatakana overlapping kanjiNichi
   \<and> allCharacteresCount (countRune overlapping newCounter kanjiNichi)
       = allCharacteresCount newCounter + 1
   \<and> allCharacteresCount (countRune overlapping newCounter kanjiNichi)
       \<noteq> allCharacteresCount newCounter + 2
   \<and> index (kanjis (countRune overlapping newCounter kanjiNichi)) kanjiNichi = 1
   \<and> index (katakanas (countRune overlapping newCounter kanjiNichi)) kanjiNichi = 1"
  by (simp add: overlapping_def site_def newCounter_def countRune_def increment_def index_def
        kanjiNichi_def hiraganaA_def hiraganaI_def)

section \<open>Claims about the ranking\<close>

text \<open>
  C3. For every frequency mapping (an association list with distinct keys, in any iteration
  order) \<open>getMostCommonCharactersList\<close> returns, without a panic, a sequence that holds every
  key of the mapping exactly once: it is a permutation of the keys, has no duplicates, its set
  is the key set and its length is the size of the mapping. The sequence is ordered by
  descending count, so every adjacent pair \<open>(a, b)\<close> has \<open>count a \<ge> count b\<close>. The empty
  mapping yields the empty sequence, and the mapping is returned as it was passed.
\<close>

theorem getMostCommonCharactersList_permutation_descending:
  assumes "distinct (map fst m)"
  shows "\<exists>r. getMostCommonCharactersList m = Some (m, r)
           \<and> mset r = mset (map fst m) \<and> distinct r \<and> set r = fst ` set m
           \<and> length r = length m
           \<and> sorted_wrt (\<lambda>a b. index m a \<ge> index m b) r
           \<and> (\<forall>i. Suc i < length r \<longrightarrow> index m (r ! i) \<ge> index m (r ! Suc i))
           \<and> (m = [] \<longrightarrow> r = [])"
proof -
  let ?r = "sort_key (\<lambda>k. - index m k) (map fst m)"
  have run: "getMostCommonCharactersList m = Some (m, ?r)"
    by (rule getMost_sort_key)
  have perm: "mset ?r = mset (map fst m)" by simp
  have dist: "distinct ?r" using assms by simp
  have keys: "set ?r = fst ` set m" by simp
  have size: "length ?r = length m" by simp
  have desc: "sorted_wrt (\<lambda>a b. index m a \<ge> index m b) ?r"
    by (rule sort_key_descending)
  have adj: "\<forall>i. Suc i < length ?r \<longrightarrow> index m (?r ! i) \<ge> index m (?r ! Suc i)"
    using desc by (simp add: sorted_wrt_iff_nth_less)
  have emp: "m = [] \<longrightarrow> ?r = []" by simp
  from run perm dist keys size desc adj emp show ?thesis by blast
qed

theorem getMostCommonCharactersList_permutation_descending_witness:
  "distinct (map fst [(''b'', 2), (''a'', 5), (''c'', 2 :: int)])
   \<and> getMostCommonCharactersList [(''b'', 2), (''a'', 5), (''c'', 2)]
       = Some ([(''b'', 2), (''a'', 5), (''c'', 2)], [''a'', ''b'', ''c''])
   \<and> getMostCommonCharactersList [] = Some ([], [])"
  using getMostCommonCharactersList_permutation_descending [of "[(''b'', 2), (''a'', 5), (''c'', 2)]"]
    getMostCommonCharactersList_permutation_descending [of "[]"]
  by (simp add: getMostCommonCharactersList_def SliceStable_def index_def)

text \<open>
  C2 (as amended). The output of \<open>getMostCommonCharactersList\<close> is determined by the contents
  of the mapping together with the order in which the iteration over the mapping yields its
  keys. For two iterations \<open>m\<close> and \<open>m'\<close> of the same contents the two outputs carry the same
  sequence of counts, and within each output the keys of one count keep the relative
  order that the iteration gave them (the sort is stable; no secondary key is compared).
  When the two iterations yield the keys in the same order the two outputs are identical.
\<close>

theorem getMostCommonCharactersList_ties_follow_iteration:
  assumes "distinct (map fst m)" and "distinct (map fst m')" and "map_of m = map_of m'"
  shows "\<exists>r r'. getMostCommonCharactersList m = Some (m, r)
           \<and> getMostCommonCharactersList m' = Some (m', r')
           \<and> map (index m) r = map (index m') r'
           \<and> (\<forall>c. filter (\<lambda>k. index m k = c) r = filter (\<lambda>k. index m k = c) (map fst m))
           \<and> (\<forall>c. filter (\<lambda>k. index m' k = c) r' = filter (\<lambda>k. index m' k = c) (map fst m'))
           \<and> (map fst m = map fst m' \<longrightarrow> r = r')"
proof -
  let ?r = "sort_key (\<lambda>k. - index m k) (map fst m)"
  let ?r' = "sort_key (\<lambda>k. - index m' k) (map fst m')"
  have ix: "index m = index m'"
    using assms(3) by (rule index_cong)
  have run: "getMostCommonCharactersList m = Some (m, ?r)"
    and run': "getMostCommonCharactersList m' = Some (m', ?r')"
    by (rule getMost_sort_key)+
  have "mset (map fst m) = mset (map fst m')"
    using assms by (rule same_contents_same_keys)
  then have counts: "map (index m) ?r = map (index m') ?r'"
    unfolding ix by (rule sort_key_counts)
  have stable: "filter (\<lambda>k. index n k = c) (sort_key (\<lambda>k. - index n k) ks)
                  = filter (\<lambda>k. index n k = c) ks" for n :: gomap and c ks
    using sort_key_stable [of "\<lambda>k. - index n k" "- c" ks] by simp
  have same: "map fst m = map fst m' \<longrightarrow> ?r = ?r'"
    using ix by simp
  from run run' counts stable same show ?thesis by blast
qed

theorem getMostCommonCharactersList_ties_follow_iteration_witness:
  "distinct (map fst [(''a'', 1), (''b'', 1 :: int)]) \<and> distinct (map fst [(''b'', 1), (''a'', 1 :: int)])
   \<and> map_of [(''a'', 1), (''b'', 1 :: int)] = map_of [(''b'', 1), (''a'', 1)]
   \<and> getMostCommonCharactersList [(''a'', 1), (''b'', 1)] = Some ([(''a'', 1), (''b'', 1)], [''a'', ''b''])
   \<and> getMostCommonCharactersList [(''b'', 1), (''a'', 1)] = Some ([(''b'', 1), (''a'', 1)], [''b'', ''a''])"
proof -
  have c: "map_of [(''a'', 1), (''b'', 1 :: int)] = map_of [(''b'', 1), (''a'', 1)]"
    by (rule ext) simp
  have d: "distinct (map fst [(''a'', 1), (''b'', 1 :: int)])"
    and d': "distinct (map fst [(''b'', 1), (''a'', 1 :: int)])"
    by simp_all
  show ?thesis
    using c d d' getMostCommonCharactersList_ties_follow_iteration [OF d d' c]
    by (simp add: getMostCommonCharactersList_def SliceStable_def index_def)
qed

theorem getMostCommonCharactersList_deterministic_counterexample:
  "map_of [(''a'', 1), (''b'', 1 :: int)] = map_of [(''b'', 1), (''a'', 1)]
   \<and> map_option snd (getMostCommonCharactersList [(''a'', 1), (''b'', 1)])
       \<noteq> map_option snd (getMostCommonCharactersList [(''b'', 1), (''a'', 1)])
   \<and> getMostCommonCharactersList [(''b'', 1), (''a'', 1)] = Some ([(''b'', 1), (''a'', 1)], [''b'', ''a''])
   \<and> index [(''b'', 1), (''a'', 1)] ''b'' = index [(''b'', 1), (''a'', 1)] ''a''
   \<and> ''a'' < ''b''"
proof -
  have "map_of [(''a'', 1), (''b'', 1 :: int)] = map_of [(''b'', 1), (''a'', 1)]"
    by (rule ext) simp
  then show ?thesis
    by (simp add: getMostCommonCharactersList_def SliceStable_def index_def)
qed

subsection \<open>Strings and links\<close>

lemma HasPrefix_prefix: "HasPrefix s pre = prefix pre s"
proof
  assume "HasPrefix s pre"
  then have "s = pre @ drop (length pre) s"
    by (metis HasPrefix_def append_take_drop_id)
  then show "prefix pre s"
    by (metis prefixI)
next
  assume "prefix pre s"
  then obtain zs where "s = pre @ zs"
    by (auto simp: prefix_def)
  then show "HasPrefix s pre"
    by (simp add: HasPrefix_def)
qed

lemma HasSuffix_suffix: "HasSuffix s suf = suffix suf s"
proof
  assume "HasSuffix s suf"
  then have "s = take (length s - length suf) s @ suf"
    by (metis HasSuffix_def append_take_drop_id)
  then show "suffix suf s"
    by (metis suffixI)
next
  assume "suffix suf s"
  then obtain zs where "s = zs @ suf"
    by (auto simp: suffix_def)
  then show "HasSuffix s suf"
    by (simp add: HasSuffix_def)
qed

lemma check_followable: "check href = followable href"
  by (simp add: check_def followable_def HasPrefix_prefix HasSuffix_suffix)

lemma set_foldl_addAttr:
  "set (foldl (addAttr url) acc attrs) =
     set acc \<union> (\<lambda>v. url @ ''/'' @ v) `
       {v \<in> set (map Val (filter (\<lambda>a. Key a = ''href'') attrs)). check v}"
  by (induction attrs arbitrary: acc) (auto simp: addAttr_def setAdd_def)

lemma distinct_foldl_addAttr:
  "distinct acc \<Longrightarrow> distinct (foldl (addAttr url) acc attrs)"
  by (induction attrs arbitrary: acc) (auto simp: addAttr_def setAdd_def)

lemma set_collectLinks:
  "set (collectLinks url tokens acc) =
     set acc \<union> (\<lambda>v. url @ ''/'' @ v) ` {v \<in> set (anchorHrefs tokens). check v}"
proof (induction tokens arbitrary: acc)
  case Nil
  then show ?case by (simp add: anchorHrefs_def)
next
  case (Cons t tokens)
  show ?case
  proof (cases "Type t = ErrorToken")
    case True
    then show ?thesis by (simp add: anchorHrefs_def)
  next
    case False
    have tail: "anchorHrefs (t # tokens) =
        (if Type t = StartTagToken \<and> Data t = ''a''
         then map Val (filter (\<lambda>a. Key a = ''href'') (Attr t)) else []) @ anchorHrefs tokens"
      using False by (simp add: anchorHrefs_def)
    show ?thesis
      using False by (auto simp: Cons.IH tail set_foldl_addAttr)
  qed
qed

lemma distinct_collectLinks:
  "distinct acc \<Longrightarrow> distinct (collectLinks url tokens acc)"
  by (induction tokens arbitrary: acc) (simp_all add: distinct_foldl_addAttr)

subsection \<open>One call of \<open>routine\<close>\<close>

lemma routine_exhausted: "layer < 0 \<Longrightarrow> routine env s url layer = s"
  by (subst routine.simps) simp

lemma routine_GetFailed:
  "\<not> layer < 0 \<Longrightarrow> Get env (requests (snd s)) url = GetFailed err \<Longrightarrow>
   routine env s url layer =
     (fst s, (snd s)\<lparr>requests := requests (snd s) @ [url],
                     printed := printed (snd s)
                       @ [[Text ''unable to fetching url.'', ErrorValue err]]\<rparr>)"
  by (subst routine.simps) (simp add: Let_def)

lemma routine_ReadFailed:
  "\<not> layer < 0 \<Longrightarrow> Get env (requests (snd s)) url = ReadFailed err \<Longrightarrow>
   routine env s url layer =
     (fst s, (snd s)\<lparr>requests := requests (snd s) @ [url],
                     printed := printed (snd s)
                       @ [[Text ''unable to read body.'', ErrorValue err]]\<rparr>)"
  by (subst routine.simps) (simp add: Let_def)

lemma routine_Body:
  "\<not> layer < 0 \<Longrightarrow> Get env (requests (snd s)) url = Body text \<Longrightarrow>
   routine env s url layer =
     foldl (\<lambda>s' nextURL. routine env s' nextURL (layer - 1))
       (foldl (countRune env) (fst s) (runes env text),
        (snd s)\<lparr>requests := requests (snd s) @ [url]\<rparr>)
       (rangeLinks env (collectLinks url (Tokenizer env text) []))"
  by (subst routine.simps) (simp add: Let_def)

lemma children_exhausted:
  "layer < 0 \<Longrightarrow> foldl (\<lambda>s' nextURL. routine env s' nextURL layer) s urls = s"
  by (induction urls arbitrary: s) (simp_all add: routine_exhausted)

lemma routine_root_only:
  "routine env s url 0 =
     (case Get env (requests (snd s)) url of
        GetFailed err \<Rightarrow>
          (fst s, (snd s)\<lparr>requests := requests (snd s) @ [url],
                          printed := printed (snd s)
                            @ [[Text ''unable to fetching url.'', ErrorValue err]]\<rparr>)
      | ReadFailed err \<Rightarrow>
          (fst s, (snd s)\<lparr>requests := requests (snd s) @ [url],
                          printed := printed (snd s)
                            @ [[Text ''unable to read body.'', ErrorValue err]]\<rparr>)
      | Body text \<Rightarrow>
          (foldl (countRune env) (fst s) (runes env text),
           (snd s)\<lparr>requests := requests (snd s) @ [url]\<rparr>))"
proof (cases "Get env (requests (snd s)) url")
  case (GetFailed err)
  then show ?thesis by (simp add: routine_GetFailed)
next
  case (ReadFailed err)
  then show ?thesis by (simp add: routine_ReadFailed)
next
  case (Body page)
  then show ?thesis by (simp add: routine_Body children_exhausted)
qed

subsection \<open>The requests of a traversal\<close>





subsection \<open>Evaluating the fixtures\<close>

lemmas fixture_defs =
  site_def siteGet_def siteRunes_def siteTokens_def siteRoot_def anchor_def emptyWorld_def
  newCounter_def defaultURL_def kanjiNichi_def kanjiHon_def hiraganaA_def hiraganaI_def
  katakanaKa_def

lemmas step_defs =
  routine.simps countRune_def increment_def index_def addAttr_def setAdd_def check_def
  HasPrefix_def HasSuffix_def

section \<open>Claims about the traversal\<close>



text \<open>
  C5. The child links that \<open>routine\<close> follows from a page are the URLs \<open>url/href\<close> for exactly
  the \<open>href\<close> values of the anchors of that page that are followable: non-empty, not starting
  with \<open>http\<close>, \<open>#\<close> or \<open>..\<close>, and ending with \<open>.html\<close>. Each of them is visited once for the
  page, however often the \<open>href\<close> occurs on it (the iteration over the set of links yields each
  key once). The set of links is built from nothing in every call, so links found on
  other pages or at other depths are not removed from it: on the fixture site, with budget
  2, \<open>a.html/b.html\<close> is linked from the root and from \<open>a.html\<close> and is fetched twice, while
  \<open>a.html\<close>, linked twice from the root, is fetched once.
\<close>

theorem routine_follows_filtered_links:
  assumes "\<forall>ls. distinct ls \<longrightarrow> mset (rangeLinks env ls) = mset ls"
  shows "(check href \<longleftrightarrow> href \<noteq> [] \<and> \<not> prefix ''http'' href \<and> \<not> prefix ''#'' href
                          \<and> \<not> prefix ''..'' href \<and> suffix ''.html'' href)
    \<and> set (rangeLinks env (collectLinks url (Tokenizer env page) []))
        = (\<lambda>h. url @ ''/'' @ h) ` {h \<in> set (anchorHrefs (Tokenizer env page)). followable h}
    \<and> distinct (rangeLinks env (collectLinks url (Tokenizer env page) []))
    \<and> (\<not> layer < 0 \<and> Get env (requests (snd s)) url = Body page \<longrightarrow>
         routine env s url layer =
           foldl (\<lambda>s' nextURL. routine env s' nextURL (layer - 1))
             (foldl (countRune env) (fst s) (runes env page),
              (snd s)\<lparr>requests := requests (snd s) @ [url]\<rparr>)
             (rangeLinks env (collectLinks url (Tokenizer env page) [])))
    \<and> anchorHrefs (Tokenizer site ''root'') =
        [''a.html'', ''http://other.site/page.html'', ''#section'', ''a.html'',
         ''../parent.html'', ''page.htm'', [], ''a.html/b.html'', ''gone.html'']
    \<and> requests (snd (routine site (newCounter, emptyWorld) siteRoot 2)) =
        [siteRoot, siteRoot @ ''/a.html'', siteRoot @ ''/a.html/b.html'',
         siteRoot @ ''/a.html/b.html'', siteRoot @ ''/gone.html'']"
proof -
  let ?links = "collectLinks url (Tokenizer env page) []"
  have filter: "check href \<longleftrightarrow> href \<noteq> [] \<and> \<not> prefix ''http'' href \<and> \<not> prefix ''#'' href
                          \<and> \<not> prefix ''..'' href \<and> suffix ''.html'' href"
    by (simp add: check_followable followable_def)
  have d: "distinct ?links"
    by (simp add: distinct_collectLinks)
  with assms have perm: "mset (rangeLinks env ?links) = mset ?links"
    by blast
  then have "set (rangeLinks env ?links) = set ?links"
    by (rule mset_eq_setD)
  then have followed: "set (rangeLinks env ?links)
        = (\<lambda>h. url @ ''/'' @ h) ` {h \<in> set (anchorHrefs (Tokenizer env page)). followable h}"
    by (simp add: set_collectLinks check_followable)
  have once: "distinct (rangeLinks env ?links)"
    using d perm by (metis mset_eq_imp_distinct_iff)
  have visit: "\<not> layer < 0 \<and> Get env (requests (snd s)) url = Body page \<longrightarrow>
         routine env s url layer =
           foldl (\<lambda>s' nextURL. routine env s' nextURL (layer - 1))
             (foldl (countRune env) (fst s) (runes env page),
              (snd s)\<lparr>requests := requests (snd s) @ [url]\<rparr>)
             (rangeLinks env ?links)"
    by (simp add: routine_Body)
  have hrefs: "anchorHrefs (Tokenizer site ''root'') =
        [''a.html'', ''http://other.site/page.html'', ''#section'', ''a.html'',
         ''../parent.html'', ''page.htm'', [], ''a.html/b.html'', ''gone.html'']"
    by (simp add: fixture_defs anchorHrefs_def)
  have twice: "requests (snd (routine site (newCounter, emptyWorld) siteRoot 2)) =
        [siteRoot, siteRoot @ ''/a.html'', siteRoot @ ''/a.html/b.html'',
         siteRoot @ ''/a.html/b.html'', siteRoot @ ''/gone.html'']"
    by (simp add: fixture_defs step_defs)
  from filter followed once visit hrefs twice show ?thesis by blast
qed

theorem routine_follows_filtered_links_witness:
  "\<not> (1 :: int) < 0 \<and> Get site (requests (snd (newCounter, emptyWorld))) siteRoot = Body ''root''
   \<and> map check [''page2.html'', ''sub/page3.html'', ''http://other.site/page.html'',
        ''#section'', ''../parent.html'', ''page.htm'', []]
       = [True, True, False, False, False, False, False]
   \<and> rangeLinks site (collectLinks siteRoot (Tokenizer site ''root'') [])
       = [siteRoot @ ''/a.html'', siteRoot @ ''/a.html/b.html'', siteRoot @ ''/gone.html'']
   \<and> requests (snd (routine site (newCounter, emptyWorld) siteRoot 1))
       = [siteRoot, siteRoot @ ''/a.html'', siteRoot @ ''/a.html/b.html'',
          siteRoot @ ''/gone.html'']"
proof -
  have h: "\<forall>ls. distinct ls \<longrightarrow> mset (rangeLinks site ls) = mset ls"
    by (simp add: site_def)
  have g: "Get site (requests (snd (newCounter, emptyWorld))) siteRoot = Body ''root''"
    by (simp add: fixture_defs)
  show ?thesis
    using g
      routine_follows_filtered_links [OF h, of "''page2.html''" siteRoot "''root''" 1
        "(newCounter, emptyWorld)"]
    by (simp add: fixture_defs step_defs)
qed

text \<open>
  C8. When the fetch or the reading of the body of one page fails, \<open>routine\<close> returns for
  that page only: it has made the one request (no retry), has printed one line that holds
  the error, and has left the counter as it was, so nothing behind that page is visited.
  The loop over the links of the parent page goes on with the remaining links from exactly
  that counter, so the parent and the siblings are visited as they would be otherwise, and
  the result is always a counter and never a failure of the run.
\<close>

theorem routine_failure_is_local:
  assumes "\<not> layer < 0"
    and "s = foldl (\<lambda>s' nextURL. routine env s' nextURL layer) s0 before"
    and "Get env (requests (snd s)) url = GetFailed err \<and> msg = ''unable to fetching url.''
         \<or> Get env (requests (snd s)) url = ReadFailed err \<and> msg = ''unable to read body.''"
  shows "routine env s url layer =
        (fst s, (snd s)\<lparr>requests := requests (snd s) @ [url],
                        printed := printed (snd s) @ [[Text msg, ErrorValue err]]\<rparr>)
    \<and> foldl (\<lambda>s' nextURL. routine env s' nextURL layer) s0 (before @ url # after) =
        foldl (\<lambda>s' nextURL. routine env s' nextURL layer)
          (fst s, (snd s)\<lparr>requests := requests (snd s) @ [url],
                          printed := printed (snd s) @ [[Text msg, ErrorValue err]]\<rparr>) after
    \<and> (Get env (requests (snd p)) parent = Body page
        \<and> rangeLinks env (collectLinks parent (Tokenizer env page) []) = before @ url # after
        \<and> s0 = (foldl (countRune env) (fst p) (runes env page),
                 (snd p)\<lparr>requests := requests (snd p) @ [parent]\<rparr>)
        \<longrightarrow> routine env p parent (layer + 1) =
              foldl (\<lambda>s' nextURL. routine env s' nextURL layer)
                (fst s, (snd s)\<lparr>requests := requests (snd s) @ [url],
                                printed := printed (snd s) @ [[Text msg, ErrorValue err]]\<rparr>)
                after)"
proof -
  let ?step = "\<lambda>s' nextURL. routine env s' nextURL layer"
  let ?left = "(fst s, (snd s)\<lparr>requests := requests (snd s) @ [url],
                               printed := printed (snd s) @ [[Text msg, ErrorValue err]]\<rparr>)"
  have branch: "routine env s url layer = ?left"
    using assms(3)
  proof
    assume "Get env (requests (snd s)) url = GetFailed err \<and> msg = ''unable to fetching url.''"
    then show ?thesis
      using assms(1) by (simp add: routine_GetFailed)
  next
    assume "Get env (requests (snd s)) url = ReadFailed err \<and> msg = ''unable to read body.''"
    then show ?thesis
      using assms(1) by (simp add: routine_ReadFailed)
  qed
  have loop: "foldl ?step s0 (before @ url # after) = foldl ?step ?left after"
    using assms(2) branch by simp
  have up: "routine env p parent (layer + 1) = foldl ?step ?left after"
    if "Get env (requests (snd p)) parent = Body page"
      and "rangeLinks env (collectLinks parent (Tokenizer env page) []) = before @ url # after"
      and "s0 = (foldl (countRune env) (fst p) (runes env page),
                 (snd p)\<lparr>requests := requests (snd p) @ [parent]\<rparr>)"
  proof -
    have "\<not> layer + 1 < 0"
      using assms(1) by simp
    then have "routine env p parent (layer + 1) = foldl ?step s0 (before @ url # after)"
      using that by (simp add: routine_Body)
    with loop show ?thesis by simp
  qed
  from branch loop up show ?thesis by blast
qed

theorem routine_failure_is_local_witness:
  "\<not> (1 :: int) < 0
   \<and> rangeLinks siteReversed (collectLinks siteRoot (Tokenizer siteReversed ''root'') [])
       = [siteRoot @ ''/gone.html'', siteRoot @ ''/a.html/b.html'', siteRoot @ ''/a.html'']
   \<and> Get siteReversed [siteRoot] (siteRoot @ ''/gone.html'') = GetFailed (New ''connection refused'')
   \<and> routine siteReversed (newCounter, emptyWorld) siteRoot 2 =
       (newCounter\<lparr>allCharacteresCount := 8,
          kanjis := [(kanjiNichi, 2), (kanjiHon, 1)],
          hiraganas := [(hiraganaA, 2), (hiraganaI, 1)],
          katakanas := [(katakanaKa, 2)]\<rparr>,
        emptyWorld\<lparr>requests := [siteRoot, siteRoot @ ''/gone.html'',
            siteRoot @ ''/a.html/b.html'', siteRoot @ ''/a.html'', siteRoot @ ''/a.html/b.html''],
          printed := [[Text ''unable to fetching url.'', ErrorValue (New ''connection refused'')]]\<rparr>)"
proof -
  let ?s0 = "(foldl (countRune siteReversed) newCounter (runes siteReversed ''root''),
              emptyWorld\<lparr>requests := [siteRoot]\<rparr>)"
  have a1: "\<not> (1 :: int) < 0"
    by simp
  have a2: "?s0 = foldl (\<lambda>s' nextURL. routine siteReversed s' nextURL 1) ?s0 []"
    by simp
  have a3: "Get siteReversed (requests (snd ?s0)) (siteRoot @ ''/gone.html'')
              = GetFailed (New ''connection refused'') \<and> ''unable to fetching url.'' = ''unable to fetching url.''
            \<or> Get siteReversed (requests (snd ?s0)) (siteRoot @ ''/gone.html'')
              = ReadFailed (New ''connection refused'') \<and> ''unable to fetching url.'' = ''unable to read body.''"
    by (simp add: siteReversed_def fixture_defs)
  show ?thesis
    using routine_failure_is_local [OF a1 a2 a3,
        of "[siteRoot @ ''/a.html/b.html'', siteRoot @ ''/a.html'']"
           "(newCounter, emptyWorld)" siteRoot "''root''"]
    by (simp add: siteReversed_def fixture_defs step_defs)
qed

section \<open>Claims about the constructor\<close>

subsection \<open>The derived counts\<close>

lemma finalize_fields:
  "finalize fc =
     fc\<lparr>uniqueCount := uniqueCount fc + len (kanjis fc) + len (katakanas fc) + len (hiraganas fc),
        kanjiUniqueCount := len (kanjis fc),
        katakanaUniqueCount := len (katakanas fc),
        hiraganaUniqueCount := len (hiraganas fc),
        kanaUniqueCount := int (card (fst ` set (katakanas fc) \<union> fst ` set (hiraganas fc)))\<rparr>"
proof -
  have "distinct (foldl setAdd [] (map fst (katakanas fc)))"
    by (simp add: distinct_foldl_setAdd)
  then have "length (foldl setAdd (foldl setAdd [] (map fst (katakanas fc)))
                (map fst (hiraganas fc)))
             = card (fst ` set (katakanas fc) \<union> fst ` set (hiraganas fc))"
    by (simp add: length_foldl_setAdd set_foldl_setAdd)
  then show ?thesis
    by (simp add: finalize_def Let_def)
qed

text \<open>
  C7 (as amended). Computing the derived counts a second time with unchanged mappings gives
  the same \<open>kanjiUniqueCount\<close>, \<open>katakanaUniqueCount\<close>, \<open>hiraganaUniqueCount\<close> and
  \<open>kanaUniqueCount\<close> (the size of the union of the hiragana and katakana keys) as the first
  time, and leaves the mappings and the total as they are. \<open>uniqueCount\<close> is accumulated:
  every application adds the sizes of the three mappings to the value it finds, so it is
  their sum after the one application that the constructor makes on a new counter, where
  it starts at 0, and a second application adds that sum once more.
\<close>

theorem finalize_again:
  "kanjiUniqueCount (finalize (finalize fc)) = kanjiUniqueCount (finalize fc)
   \<and> katakanaUniqueCount (finalize (finalize fc)) = katakanaUniqueCount (finalize fc)
   \<and> hiraganaUniqueCount (finalize (finalize fc)) = hiraganaUniqueCount (finalize fc)
   \<and> kanaUniqueCount (finalize (finalize fc)) = kanaUniqueCount (finalize fc)
   \<and> kanaUniqueCount (finalize fc)
       = int (card (fst ` set (katakanas fc) \<union> fst ` set (hiraganas fc)))
   \<and> kanjis (finalize fc) = kanjis fc \<and> katakanas (finalize fc) = katakanas fc
   \<and> hiraganas (finalize fc) = hiraganas fc
   \<and> allCharacteresCount (finalize fc) = allCharacteresCount fc
   \<and> uniqueCount (finalize fc)
       = uniqueCount fc + (len (kanjis fc) + len (katakanas fc) + len (hiraganas fc))
   \<and> uniqueCount (finalize (finalize fc))
       = uniqueCount (finalize fc) + (len (kanjis fc) + len (katakanas fc) + len (hiraganas fc))
   \<and> uniqueCount (finalize (fc\<lparr>uniqueCount := 0\<rparr>))
       = len (kanjis fc) + len (katakanas fc) + len (hiraganas fc)"
  by (simp add: finalize_fields)

theorem finalize_again_witness:
  "uniqueCount (finalize (newCounter\<lparr>kanjis := [(kanjiNichi, 2), (kanjiHon, 1)],
       katakanas := [(katakanaKa, 1)], hiraganas := [(hiraganaA, 1)]\<rparr>)) = 4
   \<and> kanaUniqueCount (finalize (finalize (newCounter\<lparr>kanjis := [(kanjiNichi, 2), (kanjiHon, 1)],
       katakanas := [(katakanaKa, 1)], hiraganas := [(hiraganaA, 1)]\<rparr>))) = 2
   \<and> kanjiUniqueCount (finalize (finalize (newCounter\<lparr>kanjis := [(kanjiNichi, 2), (kanjiHon, 1)],
       katakanas := [(katakanaKa, 1)], hiraganas := [(hiraganaA, 1)]\<rparr>))) = 2"
  using finalize_again [of "newCounter\<lparr>kanjis := [(kanjiNichi, 2), (kanjiHon, 1)],
       katakanas := [(katakanaKa, 1)], hiraganas := [(hiraganaA, 1)]\<rparr>"]
  by (simp add: finalize_def Let_def len_def setAdd_def fixture_defs)

theorem finalize_idempotent_counterexample:
  "kanjis (finalize (newCounter\<lparr>kanjis := [(kanjiNichi, 1)]\<rparr>)) = [(kanjiNichi, 1)]
   \<and> katakanas (finalize (newCounter\<lparr>kanjis := [(kanjiNichi, 1)]\<rparr>)) = []
   \<and> hiraganas (finalize (newCounter\<lparr>kanjis := [(kanjiNichi, 1)]\<rparr>)) = []
   \<and> uniqueCount (finalize (newCounter\<lparr>kanjis := [(kanjiNichi, 1)]\<rparr>)) = 1
   \<and> uniqueCount (finalize (finalize (newCounter\<lparr>kanjis := [(kanjiNichi, 1)]\<rparr>))) = 2"
  by (simp add: finalize_def Let_def len_def setAdd_def newCounter_def)

subsection \<open>The options\<close>

lemma WithSearchDepth_same:
  assumes "WithSearchDepth d = WithSearchDepth d'" and "0 \<le> d'" and "d' < maxSearchDepth"
  shows "d = d'"
proof -
  have "WithSearchDepth d \<lparr>searchDepth = None, loggingMode = False\<rparr> emptyWorld
        = WithSearchDepth d' \<lparr>searchDepth = None, loggingMode = False\<rparr> emptyWorld"
    using assms(1) by simp
  then show ?thesis
    using assms(2,3) by (auto simp: WithSearchDepth_def split: if_splits)
qed

lemma WithSearchDepth_not_WithLogging: "WithSearchDepth d \<noteq> WithLogging"
proof
  assume "WithSearchDepth d = WithLogging"
  then have "WithSearchDepth d \<lparr>searchDepth = None, loggingMode = False\<rparr> emptyWorld
             = WithLogging \<lparr>searchDepth = None, loggingMode = False\<rparr> emptyWorld"
    by simp
  then show False
    by (auto simp: WithSearchDepth_def WithLogging_def emptyWorld_def split: if_splits)
qed

lemma applyOptions_WithLogging:
  "applyOptions (WithLogging # rest) opts w =
     applyOptions rest (opts\<lparr>loggingMode := True\<rparr>)
       (w\<lparr>logged := logged w @ [[Text ''logging mode is set'']]\<rparr>)"
  by (simp add: WithLogging_def)

lemma applyOptions_valid:
  "0 \<le> d \<Longrightarrow> d < maxSearchDepth \<Longrightarrow>
   applyOptions (WithSearchDepth d # rest) opts w =
     applyOptions rest (opts\<lparr>searchDepth := Some d\<rparr>) w"
  by (simp add: WithSearchDepth_def)

lemma applyOptions_invalid:
  "d < 0 \<or> maxSearchDepth \<le> d \<Longrightarrow>
   \<exists>err. applyOptions (WithSearchDepth d # rest) opts w = (Some err, opts, w)"
  by (auto simp: WithSearchDepth_def)

declare applyOptions.simps(2) [simp del]

lemma known_option_cases:
  assumes "opt \<in> range WithSearchDepth \<union> {WithLogging}"
  obtains (logging) "opt = WithLogging"
    | (valid) d where "opt = WithSearchDepth d" "0 \<le> d" "d < maxSearchDepth"
    | (invalid) d where "opt = WithSearchDepth d" "d < 0 \<or> maxSearchDepth \<le> d"
  using assms by (auto simp: not_le not_less) fastforce

lemma known_options_world:
  "set options \<subseteq> range WithSearchDepth \<union> {WithLogging} \<Longrightarrow>
   applyOptions options opts w = (e, opts', w') \<Longrightarrow>
   requests w' = requests w \<and> printed w' = printed w"
proof (induction options arbitrary: opts w)
  case Nil
  then show ?case by simp
next
  case (Cons opt rest)
  then have "opt \<in> range WithSearchDepth \<union> {WithLogging}"
    and rest: "set rest \<subseteq> range WithSearchDepth \<union> {WithLogging}"
    by auto
  then show ?case
  proof (cases opt rule: known_option_cases)
    case logging
    then show ?thesis
      using Cons.IH [OF rest] Cons.prems(2) by (simp add: applyOptions_WithLogging)
  next
    case (valid d)
    then show ?thesis
      using Cons.IH [OF rest] Cons.prems(2) by (simp add: applyOptions_valid)
  next
    case (invalid d)
    then show ?thesis
      using applyOptions_invalid [of d rest opts w] Cons.prems(2) by auto
  qed
qed

lemma known_options_error:
  "set options \<subseteq> range WithSearchDepth \<union> {WithLogging} \<Longrightarrow>
   (fst (applyOptions options opts w) = None)
     = (\<forall>d. WithSearchDepth d \<in> set options \<longrightarrow> 0 \<le> d \<and> d < maxSearchDepth)"
proof (induction options arbitrary: opts w)
  case Nil
  then show ?case by simp
next
  case (Cons opt rest)
  then have "opt \<in> range WithSearchDepth \<union> {WithLogging}"
    and rest: "set rest \<subseteq> range WithSearchDepth \<union> {WithLogging}"
    by auto
  then show ?case
  proof (cases opt rule: known_option_cases)
    case logging
    then show ?thesis
      using Cons.IH [OF rest]
      by (simp add: applyOptions_WithLogging WithSearchDepth_not_WithLogging)
  next
    case (valid d)
    have "0 \<le> d' \<and> d' < maxSearchDepth" if "WithSearchDepth d' = WithSearchDepth d" for d'
      using WithSearchDepth_same [OF that valid(2,3)] valid(2,3) by simp
    then show ?thesis
      using valid Cons.IH [OF rest] by (auto simp: applyOptions_valid)
  next
    case (invalid d)
    then show ?thesis
      using applyOptions_invalid [of d rest opts w] by (auto simp: not_le not_less)
  qed
qed

lemma known_options_depth:
  "set options \<subseteq> range WithSearchDepth \<union> {WithLogging} \<Longrightarrow>
   applyOptions options opts w = (None, opts', w') \<Longrightarrow>
   (searchDepth opts' = None
      \<longleftrightarrow> searchDepth opts = None \<and> (\<forall>d. WithSearchDepth d \<notin> set options))
   \<and> (\<forall>k. searchDepth opts' = Some k \<longrightarrow>
          searchDepth opts = Some k \<or> WithSearchDepth k \<in> set options)
   \<and> (\<forall>k. searchDepth opts' = Some k \<longrightarrow> searchDepth opts = Some k \<or> 0 \<le> k \<and> k < maxSearchDepth)"
proof (induction options arbitrary: opts w)
  case Nil
  then show ?case by simp
next
  case (Cons opt rest)
  then have "opt \<in> range WithSearchDepth \<union> {WithLogging}"
    and rest: "set rest \<subseteq> range WithSearchDepth \<union> {WithLogging}"
    by auto
  then show ?case
  proof (cases opt rule: known_option_cases)
    case logging
    then have "applyOptions rest (opts\<lparr>loggingMode := True\<rparr>)
                 (w\<lparr>logged := logged w @ [[Text ''logging mode is set'']]\<rparr>) = (None, opts', w')"
      using Cons.prems(2) by (simp add: applyOptions_WithLogging)
    from Cons.IH [OF rest this] show ?thesis
      using logging by (auto simp: WithSearchDepth_not_WithLogging)
  next
    case (valid d)
    then have "applyOptions rest (opts\<lparr>searchDepth := Some d\<rparr>) w = (None, opts', w')"
      using Cons.prems(2) by (simp add: applyOptions_valid)
    from Cons.IH [OF rest this] show ?thesis
      using valid by auto
  next
    case (invalid d)
    then show ?thesis
      using applyOptions_invalid [of d rest opts w] Cons.prems(2) by auto
  qed
qed

subsection \<open>The log and the traversal\<close>

lemma children_logged:
  assumes "\<And>a x. x \<in> set xs \<Longrightarrow>
             f (fst a, (snd a)\<lparr>logged := l\<rparr>) x = (fst (f a x), (snd (f a x))\<lparr>logged := l\<rparr>)"
  shows "foldl f (fst a, (snd a)\<lparr>logged := l\<rparr>) xs
           = (fst (foldl f a xs), (snd (foldl f a xs))\<lparr>logged := l\<rparr>)"
  using assms
proof (induction xs arbitrary: a)
  case Nil
  then show ?case by simp
next
  case (Cons x xs)
  have "foldl f (fst a, (snd a)\<lparr>logged := l\<rparr>) (x # xs)
          = foldl f (fst (f a x), (snd (f a x))\<lparr>logged := l\<rparr>) xs"
    using Cons.prems [of x a] by simp
  also have "\<dots> = (fst (foldl f (f a x) xs), (snd (foldl f (f a x) xs))\<lparr>logged := l\<rparr>)"
    using Cons.prems by (intro Cons.IH) simp
  finally show ?case by simp
qed

lemma routine_logged:
  "routine env (fst s, (snd s)\<lparr>logged := l\<rparr>) url layer
     = (fst (routine env s url layer), (snd (routine env s url layer))\<lparr>logged := l\<rparr>)"
proof (induction env s url layer rule: routine.induct)
  case (1 env s url layer)
  show ?case
  proof (cases "layer < 0")
    case True
    then show ?thesis by (simp add: routine_exhausted)
  next
    case False
    show ?thesis
    proof (cases "Get env (requests (snd s)) url")
      case (GetFailed err)
      then show ?thesis
        using False by (simp add: routine_GetFailed)
    next
      case (ReadFailed err)
      then show ?thesis
        using False by (simp add: routine_ReadFailed)
    next
      case (Body page)
      let ?links = "rangeLinks env (collectLinks url (Tokenizer env page) [])"
      let ?s1 = "(foldl (countRune env) (fst s) (runes env page),
                  (snd s)\<lparr>requests := requests (snd s) @ [url]\<rparr>)"
      let ?step = "\<lambda>s' nextURL. routine env s' nextURL (layer - 1)"
      have step: "?step (fst a, (snd a)\<lparr>logged := l\<rparr>) x
                    = (fst (?step a x), (snd (?step a x))\<lparr>logged := l\<rparr>)"
        if "x \<in> set ?links" for a x
        using "1.IH" [OF False refl Body refl refl that] .
      have swap: "(snd s)\<lparr>logged := l, requests := requests (snd s) @ [url]\<rparr>
                    = (snd s)\<lparr>requests := requests (snd s) @ [url], logged := l\<rparr>"
        by (cases "snd s") simp
      have "routine env (fst s, (snd s)\<lparr>logged := l\<rparr>) url layer
              = foldl ?step (fst ?s1, (snd ?s1)\<lparr>logged := l\<rparr>) ?links"
        using False Body by (simp add: routine_Body swap)
      also have "\<dots> = (fst (foldl ?step ?s1 ?links), (snd (foldl ?step ?s1 ?links))\<lparr>logged := l\<rparr>)"
        using step by (rule children_logged)
      also have "foldl ?step ?s1 ?links = routine env s url layer"
        using False Body by (simp add: routine_Body)
      finally show ?thesis .
    qed
  qed
qed

lemma routine_logged_pair:
  "routine env (fc, w\<lparr>logged := l\<rparr>) url layer
     = (fst (routine env (fc, w) url layer), (snd (routine env (fc, w) url layer))\<lparr>logged := l\<rparr>)"
  using routine_logged [of env "(fc, w)" l url layer] by simp

subsection \<open>The three ways out of the constructor\<close>

lemma newKanjiKanaScraper_error:
  "applyOptions options \<lparr>searchDepth = None, loggingMode = False\<rparr> w = (Some err, opts, w1) \<Longrightarrow>
   newKanjiKanaScraper env rootURL options w = Return (Inl err) w1"
  by (simp add: newKanjiKanaScraper_def)

lemma newKanjiKanaScraper_nil:
  "applyOptions options \<lparr>searchDepth = None, loggingMode = False\<rparr> w = (None, opts, w1) \<Longrightarrow>
   searchDepth opts = None \<Longrightarrow>
   newKanjiKanaScraper env rootURL options w =
     Panic (w1\<lparr>logged := logged w1 @
        (if loggingMode opts
         then (if validURL rootURL then []
               else [[Text ''invalid URL, setting to default URL='', Text defaultURL]])
              @ [[Text ''search depth set to'', Number defaultSearchDepth]]
         else [])\<rparr>)"
  by (simp add: newKanjiKanaScraper_def Let_def)

lemma newKanjiKanaScraper_run:
  "applyOptions options \<lparr>searchDepth = None, loggingMode = False\<rparr> w = (None, opts, w1) \<Longrightarrow>
   searchDepth opts = Some d \<Longrightarrow>
   newKanjiKanaScraper env rootURL options w =
     (case routine env
        (newCounter,
         w1\<lparr>logged := logged w1 @
           (if loggingMode opts
            then (if validURL rootURL then []
                  else [[Text ''invalid URL, setting to default URL='', Text defaultURL]])
                 @ [[Text ''search depth set to'', Number d]]
            else [])\<rparr>)
        (if validURL rootURL then rootURL else defaultURL) d of
        (fc, w4) \<Rightarrow> Return (Inr (finalize fc)) w4)"
  by (simp add: newKanjiKanaScraper_def Let_def)

lemma validURL_defaultURL: "validURL defaultURL"
  by (simp add: validURL_def defaultURL_def HasPrefix_def Count_def countFrom.simps)

subsection \<open>The constructor on the fixture site\<close>

lemma validURL_siteRoot: "validURL siteRoot"
  by (simp add: validURL_def siteRoot_def HasPrefix_def Count_def countFrom.simps)

lemma invalid_examples:
  "\<not> validURL ''ftp://www.example.jp''"
  "\<not> validURL ''https://example.jp''"
  "\<not> validURL ''http://www.a.jp/://www.b.jp''"
  by (simp_all add: validURL_def HasPrefix_def Count_def countFrom.simps)

lemma site_root_page:
  "routine site (newCounter, w) siteRoot 0 =
     (newCounter\<lparr>allCharacteresCount := 3, kanjis := [(kanjiNichi, 2), (kanjiHon, 1)]\<rparr>,
      w\<lparr>requests := requests w @ [siteRoot]\<rparr>)"
proof -
  have "Get site (requests (snd (newCounter, w))) siteRoot = Body ''root''"
    by (simp add: fixture_defs)
  moreover have "foldl (countRune site) newCounter (runes site ''root'') =
      newCounter\<lparr>allCharacteresCount := 3, kanjis := [(kanjiNichi, 2), (kanjiHon, 1)]\<rparr>"
    by (simp add: fixture_defs step_defs)
  ultimately show ?thesis
    by (simp add: routine_root_only)
qed

lemma site_default_page:
  "routine site (newCounter, w) defaultURL 0 =
     (newCounter\<lparr>allCharacteresCount := 1, kanjis := [(kanjiHon, 1)]\<rparr>,
      w\<lparr>requests := requests w @ [defaultURL]\<rparr>)"
proof -
  have "Get site (requests (snd (newCounter, w))) defaultURL = Body ''D''"
    by (simp add: fixture_defs)
  moreover have "foldl (countRune site) newCounter (runes site ''D'') =
      newCounter\<lparr>allCharacteresCount := 1, kanjis := [(kanjiHon, 1)]\<rparr>"
    by (simp add: fixture_defs step_defs)
  ultimately show ?thesis
    by (simp add: routine_root_only)
qed

lemma options_depth_only:
  "0 \<le> d \<Longrightarrow> d < maxSearchDepth \<Longrightarrow>
   applyOptions [WithSearchDepth d] \<lparr>searchDepth = None, loggingMode = False\<rparr> w
     = (None, \<lparr>searchDepth = Some d, loggingMode = False\<rparr>, w)"
  by (simp add: applyOptions_valid)

lemma options_of_main:
  "0 \<le> d \<Longrightarrow> d < maxSearchDepth \<Longrightarrow>
   applyOptions [WithSearchDepth d, WithLogging] \<lparr>searchDepth = None, loggingMode = False\<rparr> w
     = (None, \<lparr>searchDepth = Some d, loggingMode = True\<rparr>,
        w\<lparr>logged := logged w @ [[Text ''logging mode is set'']]\<rparr>)"
  by (simp add: applyOptions_valid applyOptions_WithLogging)

lemma options_of_main_invalid:
  "d < 0 \<or> maxSearchDepth \<le> d \<Longrightarrow>
   applyOptions [WithSearchDepth d, WithLogging] \<lparr>searchDepth = None, loggingMode = False\<rparr> w
     = (Some (New (if d < 0 then ''search depth should be positive''
                   else ''search depth exceeds default maximum depth'')),
        \<lparr>searchDepth = None, loggingMode = False\<rparr>, w)"
  by (auto simp: applyOptions.simps(2) WithSearchDepth_def)

lemma site_without_option:
  "newKanjiKanaScraper site siteRoot [] emptyWorld = Panic emptyWorld"
  by (simp add: newKanjiKanaScraper_def validURL_siteRoot)

lemma site_logging_only:
  "newKanjiKanaScraper site siteRoot [WithLogging] emptyWorld =
     Panic (emptyWorld\<lparr>logged := [[Text ''logging mode is set''],
                                   [Text ''search depth set to'', Number 1]]\<rparr>)"
  by (simp add: newKanjiKanaScraper_def applyOptions.simps(2) WithLogging_def validURL_siteRoot
        defaultSearchDepth_def emptyWorld_def)

lemma finalize_root_page:
  "finalize (newCounter\<lparr>allCharacteresCount := 3, kanjis := [(kanjiNichi, 2), (kanjiHon, 1)]\<rparr>)
     = newCounter\<lparr>allCharacteresCount := 3, uniqueCount := 2, kanjiUniqueCount := 2,
         kanjis := [(kanjiNichi, 2), (kanjiHon, 1)]\<rparr>"
  by (simp add: finalize_def len_def newCounter_def)

lemma finalize_default_page:
  "finalize (newCounter\<lparr>allCharacteresCount := 1, kanjis := [(kanjiHon, 1)]\<rparr>)
     = newCounter\<lparr>allCharacteresCount := 1, uniqueCount := 1, kanjiUniqueCount := 1,
         kanjis := [(kanjiHon, 1)]\<rparr>"
  by (simp add: finalize_def len_def newCounter_def)

lemma site_depth_0:
  "newKanjiKanaScraper site siteRoot [WithSearchDepth 0] emptyWorld =
     Return (Inr (newCounter\<lparr>allCharacteresCount := 3, uniqueCount := 2, kanjiUniqueCount := 2,
                    kanjis := [(kanjiNichi, 2), (kanjiHon, 1)]\<rparr>))
       (emptyWorld\<lparr>requests := [siteRoot]\<rparr>)"
proof -
  have ap: "applyOptions [WithSearchDepth 0] \<lparr>searchDepth = None, loggingMode = False\<rparr> emptyWorld
              = (None, \<lparr>searchDepth = Some 0, loggingMode = False\<rparr>, emptyWorld)"
    by (simp add: options_depth_only maxSearchDepth_def)
  show ?thesis
    using newKanjiKanaScraper_run [OF ap, of 0 site siteRoot]
    by (simp add: validURL_siteRoot site_root_page finalize_root_page emptyWorld_def)
qed

lemma site_main_depth_0:
  "newKanjiKanaScraper site siteRoot [WithSearchDepth 0, WithLogging] emptyWorld =
     Return (Inr (newCounter\<lparr>allCharacteresCount := 3, uniqueCount := 2, kanjiUniqueCount := 2,
                    kanjis := [(kanjiNichi, 2), (kanjiHon, 1)]\<rparr>))
       (emptyWorld\<lparr>requests := [siteRoot],
          logged := [[Text ''logging mode is set''], [Text ''search depth set to'', Number 0]]\<rparr>)"
proof -
  have ap: "applyOptions [WithSearchDepth 0, WithLogging]
              \<lparr>searchDepth = None, loggingMode = False\<rparr> emptyWorld
              = (None, \<lparr>searchDepth = Some 0, loggingMode = True\<rparr>,
                 emptyWorld\<lparr>logged := logged emptyWorld @ [[Text ''logging mode is set'']]\<rparr>)"
    by (simp add: options_of_main maxSearchDepth_def)
  show ?thesis
    using newKanjiKanaScraper_run [OF ap, of 0 site siteRoot]
    by (simp add: validURL_siteRoot site_root_page finalize_root_page emptyWorld_def)
qed

lemma site_invalid_root:
  "newKanjiKanaScraper site ''ftp://www.example.jp'' [WithSearchDepth 0, WithLogging] emptyWorld =
     Return (Inr (newCounter\<lparr>allCharacteresCount := 1, uniqueCount := 1, kanjiUniqueCount := 1,
                    kanjis := [(kanjiHon, 1)]\<rparr>))
       (emptyWorld\<lparr>requests := [defaultURL],
          logged := [[Text ''logging mode is set''],
                     [Text ''invalid URL, setting to default URL='', Text defaultURL],
                     [Text ''search depth set to'', Number 0]]\<rparr>)"
proof -
  have ap: "applyOptions [WithSearchDepth 0, WithLogging]
              \<lparr>searchDepth = None, loggingMode = False\<rparr> emptyWorld
              = (None, \<lparr>searchDepth = Some 0, loggingMode = True\<rparr>,
                 emptyWorld\<lparr>logged := logged emptyWorld @ [[Text ''logging mode is set'']]\<rparr>)"
    by (simp add: options_of_main maxSearchDepth_def)
  show ?thesis
    using newKanjiKanaScraper_run [OF ap, of 0 site "''ftp://www.example.jp''"]
    by (simp add: invalid_examples site_default_page finalize_default_page emptyWorld_def)
qed

lemma site_invalid_depth:
  "newKanjiKanaScraper site siteRoot [WithSearchDepth 10, WithLogging] emptyWorld =
     Return (Inl (New ''search depth exceeds default maximum depth'')) emptyWorld"
  "newKanjiKanaScraper site siteRoot [WithSearchDepth (- 1), WithLogging] emptyWorld =
     Return (Inl (New ''search depth should be positive'')) emptyWorld"
  by (simp_all add: newKanjiKanaScraper_error options_of_main_invalid maxSearchDepth_def)

subsection \<open>Claims\<close>

text \<open>
  C6. The constructor passes \<open>*opts.searchDepth\<close> to the traversal. For a list of the options
  that the package defines (\<open>WithSearchDepth\<close>, \<open>WithLogging\<close>), it panics on the \<open>nil\<close> pointer
  exactly when no \<open>WithSearchDepth\<close> option was supplied. When it panics nothing has been
  requested or printed: no traversal runs with the default depth, which is only written to
  the log. When it returns a counter, the traversal ran with the depth of a supplied
  \<open>WithSearchDepth\<close> option.
\<close>

theorem newKanjiKanaScraper_needs_WithSearchDepth:
  assumes "set options \<subseteq> range WithSearchDepth \<union> {WithLogging}"
  shows "((\<exists>w'. newKanjiKanaScraper env rootURL options w = Panic w')
            \<longleftrightarrow> (\<forall>d. WithSearchDepth d \<notin> set options))
    \<and> (\<forall>w'. newKanjiKanaScraper env rootURL options w = Panic w'
          \<longrightarrow> requests w' = requests w \<and> printed w' = printed w)
    \<and> (\<forall>fc w'. newKanjiKanaScraper env rootURL options w = Return (Inr fc) w'
          \<longrightarrow> (\<exists>d w3 fc0. WithSearchDepth d \<in> set options \<and> 0 \<le> d \<and> d < maxSearchDepth
                 \<and> requests w3 = requests w \<and> printed w3 = printed w
                 \<and> routine env (newCounter, w3)
                      (if validURL rootURL then rootURL else defaultURL) d = (fc0, w')
                 \<and> fc = finalize fc0))"
proof -
  let ?opts0 = "\<lparr>searchDepth = None, loggingMode = False\<rparr>"
  obtain e opts w1 where ap: "applyOptions options ?opts0 w = (e, opts, w1)"
    by (cases "applyOptions options ?opts0 w") auto
  have same: "requests w1 = requests w \<and> printed w1 = printed w"
    using known_options_world [OF assms ap] .
  show ?thesis
  proof (cases e)
    case (Some err)
    then have out: "newKanjiKanaScraper env rootURL options w = Return (Inl err) w1"
      using ap by (simp add: newKanjiKanaScraper_error)
    have "fst (applyOptions options ?opts0 w) \<noteq> None"
      using ap Some by simp
    then have "\<exists>d. WithSearchDepth d \<in> set options"
      using known_options_error [OF assms, of ?opts0 w] by auto
    with out show ?thesis by auto
  next
    case None
    then have ap': "applyOptions options ?opts0 w = (None, opts, w1)"
      using ap by simp
    note depth = known_options_depth [OF assms ap']
    show ?thesis
    proof (cases "searchDepth opts")
      case None
      then have "\<forall>d. WithSearchDepth d \<notin> set options"
        using depth by simp
      moreover have "\<exists>w'. newKanjiKanaScraper env rootURL options w = Panic w'
                      \<and> requests w' = requests w \<and> printed w' = printed w"
        using newKanjiKanaScraper_nil [OF ap' None, of env rootURL] same by simp
      ultimately show ?thesis by auto
    next
      case (Some d)
      let ?w3 = "w1\<lparr>logged := logged w1 @
           (if loggingMode opts
            then (if validURL rootURL then []
                  else [[Text ''invalid URL, setting to default URL='', Text defaultURL]])
                 @ [[Text ''search depth set to'', Number d]]
            else [])\<rparr>"
      let ?run = "routine env (newCounter, ?w3) (if validURL rootURL then rootURL else defaultURL) d"
      have out: "newKanjiKanaScraper env rootURL options w
                   = Return (Inr (finalize (fst ?run))) (snd ?run)"
        using newKanjiKanaScraper_run [OF ap' Some, of env rootURL]
        by (simp add: case_prod_beta)
      have supplied: "WithSearchDepth d \<in> set options" and valid: "0 \<le> d \<and> d < maxSearchDepth"
        using depth Some by auto
      have "\<exists>d w3 fc0. WithSearchDepth d \<in> set options \<and> 0 \<le> d \<and> d < maxSearchDepth
                 \<and> requests w3 = requests w \<and> printed w3 = printed w
                 \<and> routine env (newCounter, w3)
                      (if validURL rootURL then rootURL else defaultURL) d = (fc0, snd ?run)
                 \<and> finalize (fst ?run) = finalize fc0"
        using supplied valid same
        by (intro exI [of _ d] exI [of _ ?w3] exI [of _ "fst ?run"]) simp
      with out supplied show ?thesis by auto
    qed
  qed
qed

theorem newKanjiKanaScraper_needs_WithSearchDepth_witness:
  "newKanjiKanaScraper site siteRoot [WithLogging] emptyWorld =
     Panic (emptyWorld\<lparr>logged := [[Text ''logging mode is set''],
                                   [Text ''search depth set to'', Number 1]]\<rparr>)
   \<and> newKanjiKanaScraper site siteRoot [] emptyWorld = Panic emptyWorld
   \<and> newKanjiKanaScraper site siteRoot [WithSearchDepth 0] emptyWorld =
       Return (Inr (newCounter\<lparr>allCharacteresCount := 3, uniqueCount := 2, kanjiUniqueCount := 2,
                      kanjis := [(kanjiNichi, 2), (kanjiHon, 1)]\<rparr>))
         (emptyWorld\<lparr>requests := [siteRoot]\<rparr>)"
proof -
  have k1: "set [WithLogging] \<subseteq> range WithSearchDepth \<union> {WithLogging}"
    and k2: "set [] \<subseteq> range WithSearchDepth \<union> {WithLogging}"
    and k3: "set [WithSearchDepth 0] \<subseteq> range WithSearchDepth \<union> {WithLogging}"
    by simp_all
  show ?thesis
    using newKanjiKanaScraper_needs_WithSearchDepth [OF k1, of site siteRoot emptyWorld]
      newKanjiKanaScraper_needs_WithSearchDepth [OF k2, of site siteRoot emptyWorld]
      newKanjiKanaScraper_needs_WithSearchDepth [OF k3, of site siteRoot emptyWorld]
    by (simp (no_asm) only: site_logging_only site_without_option site_depth_0 simp_thms)
qed

text \<open>
  C9. When one of the supplied options is \<open>WithSearchDepth depth\<close> with \<open>depth\<close> outside
  \<open>[0, maxSearchDepth)\<close>, the constructor returns an error and no counter, and nothing has
  been requested or printed: the traversal has not begun. When every supplied depth lies in
  the range, it returns a counter and no error. For the options that \<open>main\<close> passes, the
  error is returned, with the outside world untouched, exactly for the depths outside the
  range.
\<close>

theorem newKanjiKanaScraper_validates_depth:
  assumes "set options \<subseteq> range WithSearchDepth \<union> {WithLogging}"
    and "WithSearchDepth depth \<in> set options"
  shows "(depth < 0 \<or> maxSearchDepth \<le> depth
          \<longrightarrow> (\<exists>err w'. newKanjiKanaScraper env rootURL options w = Return (Inl err) w'
                 \<and> requests w' = requests w \<and> printed w' = printed w))
    \<and> ((\<forall>d. WithSearchDepth d \<in> set options \<longrightarrow> 0 \<le> d \<and> d < maxSearchDepth)
          \<longrightarrow> (\<exists>fc w'. newKanjiKanaScraper env rootURL options w = Return (Inr fc) w'))
    \<and> ((depth < 0 \<or> maxSearchDepth \<le> depth)
          \<longleftrightarrow> (\<exists>err. newKanjiKanaScraper env rootURL [WithSearchDepth depth, WithLogging] w
                        = Return (Inl err) w))"
proof -
  let ?opts0 = "\<lparr>searchDepth = None, loggingMode = False\<rparr>"
  obtain e opts w1 where ap: "applyOptions options ?opts0 w = (e, opts, w1)"
    by (cases "applyOptions options ?opts0 w") auto
  have same: "requests w1 = requests w \<and> printed w1 = printed w"
    using known_options_world [OF assms(1) ap] .
  have err: "(e = None) = (\<forall>d. WithSearchDepth d \<in> set options \<longrightarrow> 0 \<le> d \<and> d < maxSearchDepth)"
    using known_options_error [OF assms(1), of ?opts0 w] ap by simp
  have outside: "\<exists>err w'. newKanjiKanaScraper env rootURL options w = Return (Inl err) w'
                 \<and> requests w' = requests w \<and> printed w' = printed w"
    if "depth < 0 \<or> maxSearchDepth \<le> depth"
  proof -
    have "e \<noteq> None"
      using err assms(2) that by auto
    then obtain x where "e = Some x" by auto
    then have "newKanjiKanaScraper env rootURL options w = Return (Inl x) w1"
      using ap by (simp add: newKanjiKanaScraper_error)
    with same show ?thesis by blast
  qed
  have inside: "\<exists>fc w'. newKanjiKanaScraper env rootURL options w = Return (Inr fc) w'"
    if "\<forall>d. WithSearchDepth d \<in> set options \<longrightarrow> 0 \<le> d \<and> d < maxSearchDepth"
  proof -
    have ap': "applyOptions options ?opts0 w = (None, opts, w1)"
      using ap err that by simp
    have "searchDepth opts \<noteq> None"
      using known_options_depth [OF assms(1) ap'] assms(2) by auto
    then obtain d where "searchDepth opts = Some d" by auto
    from newKanjiKanaScraper_run [OF ap' this, of env rootURL] show ?thesis
      by (auto simp: case_prod_beta)
  qed
  have main: "(depth < 0 \<or> maxSearchDepth \<le> depth)
          \<longleftrightarrow> (\<exists>err. newKanjiKanaScraper env rootURL [WithSearchDepth depth, WithLogging] w
                        = Return (Inl err) w)"
  proof (cases "depth < 0 \<or> maxSearchDepth \<le> depth")
    case True
    then show ?thesis
      using options_of_main_invalid [of depth w]
      by (auto simp: newKanjiKanaScraper_error)
  next
    case False
    then have d: "0 \<le> depth" "depth < maxSearchDepth" by auto
    from newKanjiKanaScraper_run [OF options_of_main [OF d], of depth env rootURL]
    show ?thesis
      using False by (auto simp: case_prod_beta)
  qed
  from outside inside main show ?thesis by blast
qed

theorem newKanjiKanaScraper_validates_depth_witness:
  "newKanjiKanaScraper site siteRoot [WithSearchDepth 10, WithLogging] emptyWorld
     = Return (Inl (New ''search depth exceeds default maximum depth'')) emptyWorld
   \<and> newKanjiKanaScraper site siteRoot [WithSearchDepth (- 1), WithLogging] emptyWorld
     = Return (Inl (New ''search depth should be positive'')) emptyWorld
   \<and> newKanjiKanaScraper site siteRoot [WithSearchDepth 0, WithLogging] emptyWorld =
       Return (Inr (newCounter\<lparr>allCharacteresCount := 3, uniqueCount := 2, kanjiUniqueCount := 2,
                      kanjis := [(kanjiNichi, 2), (kanjiHon, 1)]\<rparr>))
         (emptyWorld\<lparr>requests := [siteRoot],
            logged := [[Text ''logging mode is set''], [Text ''search depth set to'', Number 0]]\<rparr>)"
proof -
  have k: "set [WithSearchDepth d, WithLogging] \<subseteq> range WithSearchDepth \<union> {WithLogging}"
    and m: "WithSearchDepth d \<in> set [WithSearchDepth d, WithLogging]" for d
    by simp_all
  show ?thesis
    using newKanjiKanaScraper_validates_depth [OF k m, of 10 site siteRoot emptyWorld]
      newKanjiKanaScraper_validates_depth [OF k m, of "- 1" site siteRoot emptyWorld]
      newKanjiKanaScraper_validates_depth [OF k m, of 0 site siteRoot emptyWorld]
    by (simp add: site_invalid_depth site_main_depth_0)
qed

text \<open>
  C10. A root URL that fails the validity predicate (it starts with \<open>http\<close> and holds
  \<open>://www.\<close> exactly once) makes no error: the constructor does what it does for the default
  URL, which is valid itself, the log apart. When all options succeed, the log holds, in
  logging mode, the line of the substitution followed by the line of the search depth, and
  nothing otherwise. An error is returned only when an option returns it.
\<close>

theorem newKanjiKanaScraper_invalid_root:
  assumes "\<not> validURL rootURL"
  shows "\<not> (prefix ''http'' rootURL \<and> Count rootURL ''://www.'' = 1)
    \<and> validURL defaultURL
    \<and> unlogged (newKanjiKanaScraper env rootURL options w)
        = unlogged (newKanjiKanaScraper env defaultURL options w)
    \<and> (\<forall>opts w1. applyOptions options \<lparr>searchDepth = None, loggingMode = False\<rparr> w
                     = (None, opts, w1)
          \<longrightarrow> logged (finalWorld (newKanjiKanaScraper env rootURL options w)) =
               logged w1 @
                 (if loggingMode opts
                  then [[Text ''invalid URL, setting to default URL='', Text defaultURL],
                        [Text ''search depth set to'',
                         Number (case searchDepth opts of
                                   None \<Rightarrow> defaultSearchDepth | Some d \<Rightarrow> d)]]
                  else []))
    \<and> (\<forall>err w'. newKanjiKanaScraper env rootURL options w = Return (Inl err) w'
          \<longrightarrow> (\<exists>opts. applyOptions options \<lparr>searchDepth = None, loggingMode = False\<rparr> w
                         = (Some err, opts, w')))"
proof -
  let ?opts0 = "\<lparr>searchDepth = None, loggingMode = False\<rparr>"
  have pred: "\<not> (prefix ''http'' rootURL \<and> Count rootURL ''://www.'' = 1)"
    using assms by (simp add: validURL_def HasPrefix_prefix)
  note dflt = validURL_defaultURL
  obtain e opts w1 where ap: "applyOptions options ?opts0 w = (e, opts, w1)"
    by (cases "applyOptions options ?opts0 w") auto
  show ?thesis
  proof (cases e)
    case (Some err)
    then have "newKanjiKanaScraper env url options w = Return (Inl err) w1" for url
      using ap by (simp add: newKanjiKanaScraper_error)
    with pred dflt ap Some show ?thesis by simp
  next
    case None
    then have ap': "applyOptions options ?opts0 w = (None, opts, w1)"
      using ap by simp
    show ?thesis
    proof (cases "searchDepth opts")
      case None
      show ?thesis
        using pred dflt ap' None assms
        by (simp add: newKanjiKanaScraper_nil [OF ap' None] validURL_defaultURL)
    next
      case (Some d)
      let ?run = "routine env (newCounter, w1) defaultURL d"
      have out: "newKanjiKanaScraper env url options w =
          Return (Inr (finalize (fst ?run)))
            ((snd ?run)\<lparr>logged := logged w1 @
               (if loggingMode opts
                then (if validURL url then []
                      else [[Text ''invalid URL, setting to default URL='', Text defaultURL]])
                     @ [[Text ''search depth set to'', Number d]]
                else [])\<rparr>)"
        if "url = rootURL \<or> url = defaultURL" for url
        using that assms dflt
        by (auto simp: newKanjiKanaScraper_run [OF ap' Some] routine_logged_pair)
      show ?thesis
        using pred dflt ap' Some assms
        by (simp add: out)
    qed
  qed
qed

theorem newKanjiKanaScraper_invalid_root_witness:
  "\<not> validURL ''ftp://www.example.jp''
   \<and> newKanjiKanaScraper site ''ftp://www.example.jp'' [WithSearchDepth 0, WithLogging] emptyWorld =
     Return (Inr (newCounter\<lparr>allCharacteresCount := 1, uniqueCount := 1, kanjiUniqueCount := 1,
                    kanjis := [(kanjiHon, 1)]\<rparr>))
       (emptyWorld\<lparr>requests := [defaultURL],
          logged := [[Text ''logging mode is set''],
                     [Text ''invalid URL, setting to default URL='', Text defaultURL],
                     [Text ''search depth set to'', Number 0]]\<rparr>)"
proof -
  have inv: "\<not> validURL ''ftp://www.example.jp''"
    by (simp add: invalid_examples)
  show ?thesis
    using inv
      newKanjiKanaScraper_invalid_root [OF inv, of site "[WithSearchDepth 0, WithLogging]" emptyWorld]
    by (simp add: site_invalid_root)
qed

end
